theory Spec2Isabelle
  imports Complex_Main "HOL-Library.Word" "HOL-Library.Sublist" "HOL-Library.List_Lexorder"
    "HOL-Library.Multiset"
begin

unbundle bit_operations_syntax

section \<open>Data model of \<open>dsd/np.py\<close>\<close>

text \<open>
  A base is stored in one byte (\<open>dtype = np.ubyte\<close>), so a code is an \<open>8 word\<close>:
  arithmetic on codes wraps modulo 256 as numpy's does. A two-dimensional numpy array of
  codes keeps its column count even when it has no rows, hence the record. Every
  \<open>raise\<close> of the source (and every exception of an indexing or of a dictionary lookup)
  is a value of \<open>error\<close>.
\<close>

type_synonym ubyte = "8 word"

datatype error =
  ValueError | KeyError | IndexError | TypeError | OverflowError | FileNotFoundError
  | AssertionError

record ndarray2 =
  ncols :: nat
  rows :: "ubyte list list"

definition shape0 :: "ndarray2 \<Rightarrow> nat" where
  "shape0 a = length (rows a)"

definition well_shaped :: "ndarray2 \<Rightarrow> bool" where
  "well_shaped a = list_all (\<lambda>r. length r = ncols a) (rows a)"

subsection \<open>Python containers\<close>

definition dict_get :: "('k \<rightharpoonup> 'v) \<Rightarrow> 'k \<Rightarrow> error + 'v" where
  "dict_get d k = (case d k of None \<Rightarrow> Inl KeyError | Some v \<Rightarrow> Inr v)"

definition list_get :: "'a list \<Rightarrow> nat \<Rightarrow> error + 'a" where
  "list_get xs i = (if i < length xs then Inr (xs ! i) else Inl IndexError)"

text \<open>A list comprehension \<open>[f(x) for x in xs]\<close> whose body may raise: the first
  exception ends it.\<close>

fun comprehension :: "('a \<Rightarrow> error + 'b) \<Rightarrow> 'a list \<Rightarrow> error + 'b list" where
  "comprehension f [] = Inr []"
| "comprehension f (x # xs) =
     (case f x of
        Inl e \<Rightarrow> Inl e
      | Inr y \<Rightarrow> (case comprehension f xs of Inl e \<Rightarrow> Inl e | Inr ys \<Rightarrow> Inr (y # ys)))"

subsection \<open>The codec: \<open>bits2base\<close>, \<open>base2bits\<close>, \<open>seq2arr\<close>, \<open>arr2seq\<close>\<close>

definition bits2base :: "char list" where
  "bits2base = [CHR ''A'', CHR ''C'', CHR ''G'', CHR ''T'']"

definition base2bits :: "char \<rightharpoonup> ubyte" where
  "base2bits =
     [CHR ''A'' \<mapsto> 0, CHR ''C'' \<mapsto> 1, CHR ''G'' \<mapsto> 2, CHR ''T'' \<mapsto> 3,
      CHR ''a'' \<mapsto> 0, CHR ''c'' \<mapsto> 1, CHR ''g'' \<mapsto> 2, CHR ''t'' \<mapsto> 3]"

definition seq2arr :: "string \<Rightarrow> error + ubyte list" where
  "seq2arr seq = comprehension (dict_get base2bits) seq"

definition arr2seq :: "ubyte list \<Rightarrow> error + string" where
  "arr2seq arr = comprehension (\<lambda>base. list_get bits2base (unat base)) arr"

subsection \<open>\<open>wc_arr\<close>\<close>

text \<open>\<open>(3 - seqarr)[:, ::-1]\<close>: the subtraction is numpy's on bytes, the slice reverses
  every row.\<close>

definition wc_arr :: "ndarray2 \<Rightarrow> ndarray2" where
  "wc_arr seqarr = seqarr\<lparr>rows := map (\<lambda>r. rev (map (\<lambda>x. 3 - x) r)) (rows seqarr)\<rparr>"

subsection \<open>\<open>seqs2arr\<close>\<close>

definition seqs2arr :: "string list \<Rightarrow> error + ndarray2" where
  "seqs2arr seqs =
     (if length seqs = 0 then Inr \<lparr>ncols = 0, rows = []\<rparr>
      else
        let seq_len = length (hd seqs) in
        if list_ex (\<lambda>seq. length seq \<noteq> seq_len) seqs then Inl ValueError
        else
          (case comprehension (\<lambda>seq. comprehension (dict_get base2bits) seq) seqs of
             Inl e \<Rightarrow> Inl e
           | Inr arr \<Rightarrow> Inr \<lparr>ncols = seq_len, rows = arr\<rparr>))"

subsection \<open>\<open>make_array_with_all_dna_seqs\<close>\<close>

text \<open>
  \<open>np.repeat(bases, i)\<close> repeats every element \<open>i\<close> times, \<open>np.tile(xs, j)\<close> repeats the
  whole array \<open>j\<times>\<close> times. \<open>arr[:, c] = col\<close> writes a column; numpy raises when \<open>c\<close> is
  not a column, and when \<open>col\<close> has neither one entry per row nor a single entry (which
  it broadcasts). \<open>np.empty\<close> leaves the cells uninitialised, so the initial contents
  are an argument of \<open>fill_columns\<close>; the function itself starts from zeros.
\<close>

definition np_repeat :: "'a list \<Rightarrow> nat \<Rightarrow> 'a list" where
  "np_repeat xs i = concat (map (replicate i) xs)"

definition np_tile :: "'a list \<Rightarrow> nat \<Rightarrow> 'a list" where
  "np_tile xs j = concat (replicate j xs)"

definition np_empty :: "nat \<Rightarrow> nat \<Rightarrow> ubyte list list" where
  "np_empty n m = replicate n (replicate m 0)"

definition set_column :: "nat \<Rightarrow> ubyte list \<Rightarrow> nat \<Rightarrow> ubyte list list \<Rightarrow> error + ubyte list list" where
  "set_column c col width arr =
     (if \<not> c < width then Inl IndexError
      else if length col = length arr then Inr (map2 (\<lambda>r v. r[c := v]) arr col)
      else if length col = 1 then Inr (map (\<lambda>r. r[c := hd col]) arr)
      else Inl ValueError)"

fun fill_columns ::
  "ubyte list \<Rightarrow> (nat \<times> nat \<times> nat) list \<Rightarrow> nat \<Rightarrow> ubyte list list \<Rightarrow> error + ubyte list list" where
  "fill_columns bases [] width arr = Inr arr"
| "fill_columns bases ((i, j, c) # rest) width arr =
     (case set_column c (np_tile (np_repeat bases i) j) width arr of
        Inl e \<Rightarrow> Inl e
      | Inr arr' \<Rightarrow> fill_columns bases rest width arr')"

text \<open>A negative \<open>length\<close> makes \<open>num_bases ** length\<close> a float, which \<open>np.empty\<close>
  refuses as a dimension (TypeError).\<close>

definition make_array_with_all_dna_seqs :: "int \<Rightarrow> char list \<Rightarrow> error + ndarray2" where
  "make_array_with_all_dna_seqs len bases =
     (if \<not> set bases \<subseteq> {CHR ''A'', CHR ''C'', CHR ''G'', CHR ''T''} then Inl ValueError
      else if length bases = 0 then Inl ValueError
      else
        let num_bases = length bases;
            powers_num_bases = map (\<lambda>k. num_bases ^ k) [0..<nat len]
        in
        (case comprehension (dict_get base2bits) bases of
           Inl e \<Rightarrow> Inl e
         | Inr base_bits \<Rightarrow>
             if len < 0 then Inl TypeError
             else
               (case fill_columns base_bits
                       (zip (rev powers_num_bases) (zip powers_num_bases [0..<nat len]))
                       (nat len) (np_empty (num_bases ^ nat len) (nat len)) of
                  Inl e \<Rightarrow> Inl e
                | Inr arr \<Rightarrow> Inr \<lparr>ncols = nat len, rows = arr\<rparr>)))"

subsection \<open>The random generator, the file system and \<open>int()\<close>\<close>

text \<open>
  The numpy generator, the files and Python's \<open>int\<close> parser are outside the source. A
  generator is a state of some type \<open>'g\<close>; \<open>rng_shuffle\<close> and \<open>rng_choice\<close> stand for
  \<open>Generator.shuffle\<close> (on the rows of an array) and \<open>Generator.choice\<close> (a matrix of the
  asked shape drawn from the given values), each returning the generator's next state;
  \<open>default_rng\<close> is the module's generator, the default of the constructor's \<open>rng\<close>.
  A file system maps a file name to the text of the file.
\<close>

record 'g env =
  files :: "string \<rightharpoonup> string"
  rng_shuffle :: "'g \<Rightarrow> ubyte list list \<Rightarrow> ubyte list list \<times> 'g"
  rng_choice :: "'g \<Rightarrow> ubyte list \<Rightarrow> nat \<Rightarrow> nat \<Rightarrow> ubyte list list \<times> 'g"
  py_int :: "string \<Rightarrow> int option"
  default_rng :: 'g

subsection \<open>\<open>make_array_with_random_subset_of_dna_seqs\<close>\<close>

text \<open>\<open>np.unique(arr, axis=0)\<close>: the distinct rows, sorted.\<close>

definition np_unique_rows :: "ubyte list list \<Rightarrow> ubyte list list" where
  "np_unique_rows arr = remdups_adj (sort arr)"

definition make_array_with_random_subset_of_dna_seqs ::
  "'g env \<Rightarrow> int \<Rightarrow> int \<Rightarrow> 'g \<Rightarrow> char list \<Rightarrow> error + (ndarray2 \<times> 'g)" where
  "make_array_with_random_subset_of_dna_seqs E len num_seqs g bases =
     (if \<not> set bases \<subseteq> {CHR ''A'', CHR ''C'', CHR ''G'', CHR ''T''} then Inl ValueError
      else if length bases = 0 then Inl ValueError
      else if length bases = 1 then Inl ValueError
      else
        (case comprehension (dict_get base2bits) bases of
           Inl e \<Rightarrow> Inl e
         | Inr base_bits \<Rightarrow>
             if num_seqs < 0 \<or> len < 0 then Inl ValueError
             else
               let (arr, g') = rng_choice E g base_bits (nat num_seqs) (nat len)
               in Inr (\<lparr>ncols = nat len, rows = np_unique_rows arr\<rparr>, g')))"

subsection \<open>The class \<open>DNASeqList\<close>\<close>

record 'g DNASeqList =
  seqarr :: ndarray2
  numseqs :: int
  seqlen :: int
  rng :: 'g
  shift :: "int list"

record 'g init_args =
  arg_length :: "int option"
  arg_num_random_seqs :: "int option"
  arg_shuffle :: bool
  arg_alphabet :: "char list"
  arg_seqs :: "string list option"
  arg_seqarr :: "ndarray2 option"
  arg_filename :: "string option"
  arg_rng :: 'g

definition default_args :: "'g \<Rightarrow> 'g init_args" where
  "default_args g =
     \<lparr>arg_length = None, arg_num_random_seqs = None, arg_shuffle = False,
      arg_alphabet = ''ACGT'', arg_seqs = None, arg_seqarr = None, arg_filename = None,
      arg_rng = g\<rparr>"

text \<open>\<open>itertools.combinations(xs, 2)\<close>.\<close>

fun combinations2 :: "'a list \<Rightarrow> ('a \<times> 'a) list" where
  "combinations2 [] = []"
| "combinations2 (x # xs) = map (Pair x) xs @ combinations2 xs"

subsubsection \<open>Text of a file: \<open>str\<close>, \<open>readline\<close>, \<open>split\<close>, \<open>strip\<close>\<close>

definition digit_char :: "nat \<Rightarrow> char" where
  "digit_char d = ''0123456789'' ! d"

fun str_nat :: "nat \<Rightarrow> string" where
  "str_nat n = (if n < 10 then [digit_char n] else str_nat (n div 10) @ [digit_char (n mod 10)])"

declare str_nat.simps [simp del]

definition str_int :: "int \<Rightarrow> string" where
  "str_int i = (if i < 0 then CHR ''-'' # str_nat (nat (- i)) else str_nat (nat i))"

text \<open>The whitespace of \<open>str.split\<close> and \<open>str.strip\<close> among the ASCII characters: tab,
  line feed, vertical tab, form feed, carriage return, the four separators 28 to 31, and
  the space.\<close>

definition isspace :: "char \<Rightarrow> bool" where
  "isspace c = (of_char c \<in> {9, 10, 11, 12, 13, 28, 29, 30, 31, 32 :: nat})"

fun split_from :: "string \<Rightarrow> string \<Rightarrow> string list" where
  "split_from tok [] = (if tok = [] then [] else [tok])"
| "split_from tok (c # cs) =
     (if isspace c then (if tok = [] then split_from [] cs else tok # split_from [] cs)
      else split_from (tok @ [c]) cs)"

definition py_split :: "string \<Rightarrow> string list" where
  "py_split s = split_from [] s"

definition py_strip :: "string \<Rightarrow> string" where
  "py_strip s = rev (dropWhile isspace (rev (dropWhile isspace s)))"

text \<open>\<open>f.readline()\<close>: the line with its line feed, and what is left of the file.\<close>

fun readline :: "string \<Rightarrow> string \<times> string" where
  "readline [] = ([], [])"
| "readline (c # cs) =
     (if c = CHR 0x0A then ([c], cs) else (let (l, r) = readline cs in (c # l, r)))"

subsubsection \<open>\<open>_read_from_file\<close>\<close>

text \<open>\<open>self.seqarr[i] = row\<close>: a row of the right width, or a single value that numpy
  broadcasts over the row.\<close>

definition assign_row :: "nat \<Rightarrow> ubyte list \<Rightarrow> error + ubyte list" where
  "assign_row width v =
     (if length v = width then Inr v
      else if length v = 1 then Inr (replicate width (hd v))
      else Inl ValueError)"

fun read_rows :: "nat \<Rightarrow> nat \<Rightarrow> string \<Rightarrow> error + ubyte list list" where
  "read_rows 0 width f = Inr []"
| "read_rows (Suc n) width f =
     (let (line, rest) = readline f in
      case comprehension (dict_get base2bits) (py_strip line) of
        Inl e \<Rightarrow> Inl e
      | Inr v \<Rightarrow>
          (case assign_row width v of
             Inl e \<Rightarrow> Inl e
           | Inr r \<Rightarrow>
               (case read_rows n width rest of Inl e \<Rightarrow> Inl e | Inr rs \<Rightarrow> Inr (r # rs))))"

text \<open>The reader unpacks the split header into three names, which raises ValueError
  unless the header has exactly three fields. It returns the three attributes it sets.\<close>

definition read_from_file :: "'g env \<Rightarrow> string \<Rightarrow> error + (ndarray2 \<times> int \<times> int)" where
  "read_from_file E filename =
     (case files E filename of
        None \<Rightarrow> Inl FileNotFoundError
      | Some f \<Rightarrow>
          let (first_line, rest) = readline f in
          (case py_split first_line of
             [num_seqs_str, seq_len_str, temperature] \<Rightarrow>
               (case py_int E num_seqs_str of
                  None \<Rightarrow> Inl ValueError
                | Some n \<Rightarrow>
                    (case py_int E seq_len_str of
                       None \<Rightarrow> Inl ValueError
                     | Some l \<Rightarrow>
                         if n < 0 \<or> l < 0 then Inl ValueError
                         else
                           (case read_rows (nat n) (nat l) rest of
                              Inl e \<Rightarrow> Inl e
                            | Inr arr \<Rightarrow> Inr (\<lparr>ncols = nat l, rows = arr\<rparr>, n, l))))
           | _ \<Rightarrow> Inl ValueError))"

subsubsection \<open>\<open>shuffle\<close> and \<open>__init__\<close>\<close>

definition shuffle :: "'g env \<Rightarrow> 'g DNASeqList \<Rightarrow> 'g DNASeqList" where
  "shuffle E self =
     (let (rs, g') = rng_shuffle E (rng self) (rows (seqarr self))
      in self\<lparr>seqarr := (seqarr self)\<lparr>rows := rs\<rparr>, rng := g'\<rparr>)"

text \<open>\<open>np.arange(2 * (seqlen - 1), -1, -2)\<close>.\<close>

definition shift_of :: "int \<Rightarrow> int list" where
  "shift_of l = map (\<lambda>i. 2 * (l - 1) - 2 * int i) [0..<nat l]"

definition finish_init :: "'g env \<Rightarrow> bool \<Rightarrow> ndarray2 \<Rightarrow> int \<Rightarrow> int \<Rightarrow> 'g \<Rightarrow> 'g DNASeqList" where
  "finish_init E shuffle_flag arr n l g =
     (let self = \<lparr>seqarr = arr, numseqs = n, seqlen = l, rng = g, shift = shift_of l\<rparr>
      in if shuffle_flag then shuffle E self else self)"

definition DNASeqList_init :: "'g env \<Rightarrow> 'g init_args \<Rightarrow> error + 'g DNASeqList" where
  "DNASeqList_init E a =
     (if list_ex (\<lambda>(v1, v2). v1 \<and> v2)
           (combinations2
              [arg_length a \<noteq> None, arg_seqs a \<noteq> None, arg_seqarr a \<noteq> None,
               arg_filename a \<noteq> None])
      then Inl ValueError
      else
        (case arg_seqarr a of
           Some arr \<Rightarrow>
             Inr (finish_init E (arg_shuffle a) arr (int (shape0 arr)) (int (ncols arr)) (arg_rng a))
         | None \<Rightarrow>
        (case arg_seqs a of
           Some seqs \<Rightarrow>
             if length seqs = 0 then Inl ValueError
             else if list_ex (\<lambda>seq. length seq \<noteq> length (hd seqs)) seqs then Inl ValueError
             else
               (case seqs2arr seqs of
                  Inl e \<Rightarrow> Inl e
                | Inr arr \<Rightarrow>
                    Inr (finish_init E (arg_shuffle a) arr (int (length seqs))
                           (int (length (hd seqs))) (arg_rng a)))
         | None \<Rightarrow>
        (case arg_filename a of
           Some filename \<Rightarrow>
             (case read_from_file E filename of
                Inl e \<Rightarrow> Inl e
              | Inr (arr, n, l) \<Rightarrow> Inr (finish_init E (arg_shuffle a) arr n l (arg_rng a)))
         | None \<Rightarrow>
        (case arg_length a of
           Some len \<Rightarrow>
             (case arg_num_random_seqs a of
                None \<Rightarrow>
                  (case make_array_with_all_dna_seqs len (arg_alphabet a) of
                     Inl e \<Rightarrow> Inl e
                   | Inr arr \<Rightarrow>
                       Inr (finish_init E (arg_shuffle a) arr (int (shape0 arr)) len (arg_rng a)))
              | Some num \<Rightarrow>
                  (case make_array_with_random_subset_of_dna_seqs E len num (arg_rng a)
                          (arg_alphabet a) of
                     Inl e \<Rightarrow> Inl e
                   | Inr (arr, g') \<Rightarrow>
                       Inr (finish_init E (arg_shuffle a) arr (int (shape0 arr)) len g')))
         | None \<Rightarrow> Inl ValueError)))))"

subsubsection \<open>\<open>get_seq_str\<close> and \<open>write_to_file\<close>\<close>

definition get_seq_str :: "'g DNASeqList \<Rightarrow> nat \<Rightarrow> error + string" where
  "get_seq_str self idx =
     (case list_get (rows (seqarr self)) idx of Inl e \<Rightarrow> Inl e | Inr r \<Rightarrow> arr2seq r)"

text \<open>
  The writer opens the file for writing, writes the header and then one line per
  sequence. An exception of \<open>get_seq_str\<close> ends the loop with the lines written so far
  in the file, so \<open>write_lines\<close> returns the text it wrote together with the exception,
  if any, and \<open>write_to_file\<close> the exception and the file system it leaves.
\<close>

fun write_lines :: "'g DNASeqList \<Rightarrow> nat list \<Rightarrow> string \<times> error option" where
  "write_lines self [] = ([], None)"
| "write_lines self (i # is) =
     (case get_seq_str self i of
        Inl e \<Rightarrow> ([], Some e)
      | Inr l \<Rightarrow> (let (t, r) = write_lines self is in (l @ [CHR 0x0A] @ t, r)))"

definition write_to_file :: "'g env \<Rightarrow> 'g DNASeqList \<Rightarrow> string \<Rightarrow> error option \<times> 'g env" where
  "write_to_file E self filename =
     (let header = str_int (numseqs self) @ '' '' @ str_int (seqlen self) @ [CHR 0x0A];
          (body, r) = write_lines self [0..<nat (numseqs self)]
      in (r, E\<lparr>files := (files E)(filename \<mapsto> header @ body)\<rparr>))"

subsubsection \<open>\<open>pop_array\<close> and \<open>filter_hamming\<close>\<close>

definition pop_array :: "'g DNASeqList \<Rightarrow> error + (ubyte list \<times> 'g DNASeqList)" where
  "pop_array self =
     (if rows (seqarr self) = [] then Inl IndexError
      else Inr (last (rows (seqarr self)),
                self\<lparr>seqarr := (seqarr self)\<lparr>rows := butlast (rows (seqarr self))\<rparr>,
                     numseqs := numseqs self - 1\<rparr>))"

text \<open>\<open>np.sum(np.bitwise_xor(arr_keep, seq) != 0, axis=1)\<close> counts, for each kept row, the
  positions at which it differs from \<open>seq\<close>; \<open>np.min\<close> is taken of a list that is never
  empty here.\<close>

definition hamming :: "ubyte list \<Rightarrow> ubyte list \<Rightarrow> nat" where
  "hamming r seq = length (filter (\<lambda>(x, y). x XOR y \<noteq> 0) (zip r seq))"

definition np_min :: "nat list \<Rightarrow> nat" where
  "np_min xs = fold min (tl xs) (hd xs)"

text \<open>The inner \<open>while\<close> loop: it looks at the popped row only while rows are left in
  the working set.\<close>

function hamming_inner ::
  "int \<Rightarrow> ubyte list list \<Rightarrow> ubyte list \<Rightarrow> 'g DNASeqList \<Rightarrow> error + (ubyte list \<times> 'g DNASeqList)" where
  "hamming_inner threshold arr_keep seq self =
     (if shape0 (seqarr self) > 0 then
        let hamming_min = np_min (map (\<lambda>r. hamming r seq) arr_keep);
            too_close = (int hamming_min < threshold)
        in if \<not> too_close then Inr (seq, self)
           else
             (case pop_array self of
                Inl e \<Rightarrow> Inl e
              | Inr (seq', self') \<Rightarrow> hamming_inner threshold arr_keep seq' self')
      else Inr (seq, self))"
  by pat_completeness auto
termination
  by (relation "measure (\<lambda>(t, k, s, d). length (rows (seqarr d)))")
     (auto simp: pop_array_def split: if_splits)

declare hamming_inner.simps [simp del]

text \<open>The outer \<open>while\<close> loop, with \<open>np.vstack([arr_keep, seq])\<close> at the end of its body.\<close>

function hamming_outer ::
  "int \<Rightarrow> ubyte list list \<Rightarrow> 'g DNASeqList \<Rightarrow> error + (ubyte list list \<times> 'g DNASeqList)" where
  "hamming_outer threshold arr_keep self =
     (if shape0 (seqarr self) > 0 then
        (case pop_array self of
           Inl e \<Rightarrow> Inl e
         | Inr (seq, self1) \<Rightarrow>
             (case hamming_inner threshold arr_keep seq self1 of
                Inl e \<Rightarrow> Inl e
              | Inr (seq', self2) \<Rightarrow> hamming_outer threshold (arr_keep @ [seq']) self2))
      else Inr (arr_keep, self))"
  by pat_completeness auto
termination
proof (relation "measure (\<lambda>(t, k, d). length (rows (seqarr d)))")
  show "wf (measure (\<lambda>(t, k, d). length (rows (seqarr d))))"
    by simp
next
  fix threshold :: int and arr_keep :: "ubyte list list" and self :: "'g DNASeqList"
    and x2 seq self1 y seq' self2
  assume pop: "pop_array self = Inr x2" "(seq, self1) = x2"
    and inner: "hamming_inner threshold arr_keep seq self1 = Inr y" "(seq', self2) = y"
  have shrink: "hamming_inner t k s d = Inr (s', d') \<Longrightarrow>
      length (rows (seqarr d')) \<le> length (rows (seqarr d))" for t k s s' and d d' :: "'g DNASeqList"
  proof (induction t k s d rule: hamming_inner.induct)
    case (1 threshold arr_keep seq self)
    show ?case
    proof (cases "0 < shape0 (seqarr self) \<and>
        int (np_min (map (\<lambda>r. hamming r seq) arr_keep)) < threshold")
      case False
      with "1.prems" show ?thesis
        by (subst (asm) hamming_inner.simps) (auto simp: Let_def split: if_splits)
    next
      case True
      with "1.prems" obtain s1 d1 where p: "pop_array self = Inr (s1, d1)"
        and r: "hamming_inner threshold arr_keep s1 d1 = Inr (s', d')"
        by (subst (asm) hamming_inner.simps) (auto simp: Let_def split: sum.splits)
      from "1.IH" [OF _ refl refl _ p refl r] True
      have "length (rows (seqarr d')) \<le> length (rows (seqarr d1))"
        by simp
      moreover from p have "length (rows (seqarr d1)) \<le> length (rows (seqarr self))"
        by (auto simp: pop_array_def split: if_splits)
      ultimately show ?thesis by simp
    qed
  qed
  from pop have "length (rows (seqarr self1)) < length (rows (seqarr self))"
    by (auto simp: pop_array_def split: if_splits)
  moreover from inner shrink [of threshold arr_keep seq self1 seq' self2]
  have "length (rows (seqarr self2)) \<le> length (rows (seqarr self1))"
    by simp
  ultimately show "((threshold, arr_keep @ [seq'], self2), threshold, arr_keep, self)
      \<in> measure (\<lambda>(t, k, d). length (rows (seqarr d)))"
    by simp
qed

declare hamming_outer.simps [simp del]

definition filter_hamming :: "'g env \<Rightarrow> int \<Rightarrow> 'g DNASeqList \<Rightarrow> error + 'g DNASeqList" where
  "filter_hamming E threshold self =
     (case pop_array self of
        Inl e \<Rightarrow> Inl e
      | Inr (seq, self1) \<Rightarrow>
          (case hamming_outer threshold [seq] (shuffle E self1) of
             Inl e \<Rightarrow> Inl e
           | Inr (arr_keep, self2) \<Rightarrow>
               Inr (self2\<lparr>seqarr := (seqarr self2)\<lparr>rows := arr_keep\<rparr>,
                          numseqs := int (length arr_keep)\<rparr>)))"

subsubsection \<open>\<open>create_toeplitz\<close> and \<open>filter_substring\<close>\<close>

text \<open>
  \<open>np.zeros(..., dtype=np.int)\<close> is an array of C longs, taken here as 64 bits wide (as
  on Linux and macOS): an \<open>int64\<close> is a \<open>64 word\<close>, whose sums and products wrap as
  those of \<open>np.dot\<close> do. \<open>np.zeros\<close> refuses a negative dimension (ValueError); writing
  the Python integers of \<open>powarr\<close> into the array raises OverflowError when one of them
  is beyond the largest C long; with no row to write, the empty list on the right only
  fits a slice without columns. \<open>np.roll(xs, s)\<close> moves every entry \<open>s\<close> places to the
  right, around the end.
\<close>

type_synonym int64 = "64 word"

definition np_roll :: "'a list \<Rightarrow> nat \<Rightarrow> 'a list" where
  "np_roll xs s =
     (let n = length xs
      in if n = 0 then xs else drop (n - s mod n) xs @ take (n - s mod n) xs)"

definition create_toeplitz :: "int \<Rightarrow> nat \<Rightarrow> error + int64 list list" where
  "create_toeplitz seq_len sublen =
     (let powarr = map (\<lambda>k. (4 :: int) ^ k) [0..<sublen];
          nrows = seq_len - (int sublen - 1);
          cols = seq_len
      in if nrows < 0 \<or> cols < 0 then Inl ValueError
         else if nrows = 0 then (if cols = 0 then Inr [] else Inl ValueError)
         else if list_ex (\<lambda>p. 2 ^ 63 - 1 < p) powarr then Inl OverflowError
         else
           Inr (map (\<lambda>i. np_roll (map of_int powarr @ replicate (nat cols - sublen) 0) i)
                  [0..<nat nrows]))"

text \<open>\<open>np.dot\<close> of two vectors; \<open>&\<close> of two boolean vectors, which broadcasts a vector
  of one entry; indexing by a boolean mask, which must have one entry per row.\<close>

definition np_dot :: "int64 list \<Rightarrow> int64 list \<Rightarrow> int64" where
  "np_dot xs ys = sum_list (map2 (*) xs ys)"

definition np_and :: "bool list \<Rightarrow> bool list \<Rightarrow> error + bool list" where
  "np_and xs ys =
     (if length xs = length ys then Inr (map2 (\<and>) xs ys)
      else if length xs = 1 then Inr (map (\<lambda>y. hd xs \<and> y) ys)
      else if length ys = 1 then Inr (map (\<lambda>x. x \<and> hd ys) xs)
      else Inl ValueError)"

definition mask_rows :: "'a list \<Rightarrow> bool list \<Rightarrow> error + 'a list" where
  "mask_rows xs sel =
     (if length sel = length xs then Inr (map fst (filter snd (zip xs sel)))
      else Inl IndexError)"

text \<open>The loop over \<open>subvals\<close>. The convolution is kept by columns, one list of window
  values per sequence; \<open>np.all(convolution != subval, axis=0)\<close> tests each column.\<close>

fun pass_loop :: "int64 list list \<Rightarrow> int64 list \<Rightarrow> bool list \<Rightarrow> error + bool list" where
  "pass_loop convolution [] passall = Inr passall"
| "pass_loop convolution (subval # subvals) passall =
     (case np_and passall (map (\<lambda>col. list_all (\<lambda>v. v \<noteq> subval) col) convolution) of
        Inl e \<Rightarrow> Inl e
      | Inr passall' \<Rightarrow> pass_loop convolution subvals passall')"

text \<open>
  \<open>filter_substring\<close>. The two \<open>np.dot\<close> are on C longs. (For substrings of more than 32
  symbols \<open>powarr\<close> holds integers beyond a C long and \<open>subvals\<close> is an array of Python
  integers instead; its values are not modelled, since \<open>create_toeplitz\<close> then raises in
  every case.) The matrix product needs as many columns in \<open>toeplitz\<close>, which are
  \<open>self.seqlen\<close>, as \<open>self.seqarr\<close> has. The result is built by the constructor with
  \<open>seqarr\<close> as its only argument.
\<close>

definition filter_substring :: "'g env \<Rightarrow> 'g DNASeqList \<Rightarrow> string list \<Rightarrow> error + 'g DNASeqList" where
  "filter_substring E self subs =
     (if length (remdups (map length subs)) \<noteq> 1 then Inl ValueError
      else
        let sublen = length (hd subs) in
        (case comprehension (\<lambda>sub. comprehension (dict_get base2bits) sub) subs of
           Inl e \<Rightarrow> Inl e
         | Inr subints \<Rightarrow>
             let powarr = map (\<lambda>k. 4 ^ k) [0..<sublen];
                 subvals = map (\<lambda>sub. np_dot (map ucast sub) powarr) subints
             in
             (case create_toeplitz (seqlen self) sublen of
                Inl e \<Rightarrow> Inl e
              | Inr toeplitz \<Rightarrow>
                  if seqlen self \<noteq> int (ncols (seqarr self)) then Inl ValueError
                  else if numseqs self < 0 then Inl ValueError
                  else
                    let convolution =
                          map (\<lambda>r. map (\<lambda>t. np_dot t (map ucast r)) toeplitz) (rows (seqarr self))
                    in
                    (case pass_loop convolution subvals (replicate (nat (numseqs self)) True) of
                       Inl e \<Rightarrow> Inl e
                     | Inr passall \<Rightarrow>
                         (case mask_rows (rows (seqarr self)) passall of
                            Inl e \<Rightarrow> Inl e
                          | Inr seqarrpass \<Rightarrow>
                              DNASeqList_init E
                                ((default_args (default_rng E))
                                   \<lparr>arg_seqarr :=
                                      Some \<lparr>ncols = ncols (seqarr self), rows = seqarrpass\<rparr>\<rparr>))))))"

text \<open>
  The naive check that the specification compares \<open>filter_substring\<close> with: a row
  passes when the string it decodes to contains none of the forbidden substrings.
\<close>

definition contains_none :: "string list \<Rightarrow> ubyte list \<Rightarrow> bool" where
  "contains_none subs r =
     (case arr2seq r of
        Inl e \<Rightarrow> False
      | Inr s \<Rightarrow> list_all (\<lambda>sub. \<not> sublist sub s) subs)"

text \<open>The value of a window of codes in base 4, lowest digit first: what the product
  with the powers of 4 computes when nothing overflows. It is used in the proofs only.\<close>

fun window_value :: "ubyte list \<Rightarrow> nat" where
  "window_value [] = 0"
| "window_value (x # xs) = unat x + 4 * window_value xs"

text \<open>The invariants of a \<open>DNASeqList\<close>: \<open>numseqs\<close> and \<open>seqlen\<close> are the shape of
  \<open>seqarr\<close>, whose rows have that many columns, and every entry is one of the codes 0 to
  3.\<close>

definition consistent :: "'g DNASeqList \<Rightarrow> bool" where
  "consistent self =
     (well_shaped (seqarr self) \<and> numseqs self = int (shape0 (seqarr self)) \<and>
      seqlen self = int (ncols (seqarr self)) \<and>
      list_all (list_all (\<lambda>x. x < 4)) (rows (seqarr self)))"

subsection \<open>Boolean indexing\<close>

text \<open>
  The substring matchers index a row of \<open>len(a2) + 1\<close> counters by a boolean array of
  \<open>len(a2)\<close> entries (\<open>counter[i1, idx]\<close>). What numpy does with a boolean index that is
  shorter or longer than the axis it indexes is not in the source and has changed:
  numpy before 1.13 takes the index as the positions at which it is true (\<open>Lenient\<close>,
  with a warning); later versions raise IndexError unless the lengths agree or the
  boolean index is empty (\<open>Strict\<close>). The rule is a parameter of the model. Under both
  rules a true entry beyond the axis is an IndexError, and an assignment through a
  boolean index needs one value per true entry, or a single value (ValueError
  otherwise). The names \<open>np.int\<close>, \<open>np.bool\<close>, \<open>np.float\<close> and the keyword \<open>dims\<close> of
  \<open>np.unravel_index\<close> are read as numpy up to 1.20 has them.
\<close>

datatype index_rule = Lenient | Strict

definition mask_shape_ok :: "index_rule \<Rightarrow> nat \<Rightarrow> nat \<Rightarrow> bool" where
  "mask_shape_ok rule axis_len mask_len =
     (rule = Lenient \<or> mask_len = axis_len \<or> mask_len = 0)"

text \<open>The entries of a row at the true positions of a boolean index; their replacement
  by a list of values, in order, which also returns the values left over.\<close>

fun take_true :: "'a list \<Rightarrow> bool list \<Rightarrow> 'a list" where
  "take_true (x # xs) (b # bs) = (if b then x # take_true xs bs else take_true xs bs)"
| "take_true xs bs = []"

fun put_true :: "'a list \<Rightarrow> bool list \<Rightarrow> 'a list \<Rightarrow> 'a list \<times> 'a list" where
  "put_true (x # xs) (True # bs) (v # vs) = (let (r, rest) = put_true xs bs vs in (v # r, rest))"
| "put_true (x # xs) (False # bs) vs = (let (r, rest) = put_true xs bs vs in (x # r, rest))"
| "put_true xs bs vs = (xs, vs)"

fun put_true2 :: "'a list list \<Rightarrow> bool list list \<Rightarrow> 'a list \<Rightarrow> 'a list list" where
  "put_true2 (r # rs) (m # ms) vs = (let (r', rest) = put_true r m vs in r' # put_true2 rs ms rest)"
| "put_true2 rs ms vs = rs"

definition count_true :: "bool list \<Rightarrow> nat" where
  "count_true m = length (filter (\<lambda>b. b) m)"

text \<open>\<open>x[m]\<close> and \<open>x[m] = vs\<close> for a one-dimensional \<open>x\<close>.\<close>

definition np_take_mask :: "index_rule \<Rightarrow> 'a list \<Rightarrow> bool list \<Rightarrow> error + 'a list" where
  "np_take_mask rule xs m =
     (if \<not> mask_shape_ok rule (length xs) (length m) then Inl IndexError
      else if list_ex (\<lambda>b. b) (drop (length xs) m) then Inl IndexError
      else Inr (take_true xs m))"

definition np_put_mask :: "index_rule \<Rightarrow> 'a list \<Rightarrow> bool list \<Rightarrow> 'a list \<Rightarrow> error + 'a list" where
  "np_put_mask rule xs m vs =
     (if \<not> mask_shape_ok rule (length xs) (length m) then Inl IndexError
      else if list_ex (\<lambda>b. b) (drop (length xs) m) then Inl IndexError
      else if length vs = count_true m then Inr (fst (put_true xs m vs))
      else if length vs = 1 then Inr (fst (put_true xs m (replicate (count_true m) (hd vs))))
      else Inl ValueError)"

text \<open>The same for a two-dimensional \<open>x\<close> of \<open>w\<close> columns and a two-dimensional boolean
  index of \<open>mw\<close> columns: the selected entries come row by row.\<close>

definition np_take_mask2 ::
  "index_rule \<Rightarrow> 'a list list \<Rightarrow> nat \<Rightarrow> bool list list \<Rightarrow> nat \<Rightarrow> error + 'a list" where
  "np_take_mask2 rule x w ms mw =
     (if \<not> mask_shape_ok rule (length x) (length ms) \<or> \<not> mask_shape_ok rule w mw
      then Inl IndexError
      else if list_ex (list_ex (\<lambda>b. b)) (drop (length x) ms) \<or>
              list_ex (\<lambda>m. list_ex (\<lambda>b. b) (drop w m)) ms
      then Inl IndexError
      else Inr (concat (map2 take_true x ms)))"

definition np_put_mask2 ::
  "index_rule \<Rightarrow> 'a list list \<Rightarrow> nat \<Rightarrow> bool list list \<Rightarrow> nat \<Rightarrow> 'a list \<Rightarrow> error + 'a list list" where
  "np_put_mask2 rule x w ms mw vs =
     (if \<not> mask_shape_ok rule (length x) (length ms) \<or> \<not> mask_shape_ok rule w mw
      then Inl IndexError
      else if list_ex (list_ex (\<lambda>b. b)) (drop (length x) ms) \<or>
              list_ex (\<lambda>m. list_ex (\<lambda>b. b) (drop w m)) ms
      then Inl IndexError
      else if length vs = count_true (concat ms) then Inr (put_true2 x ms vs)
      else if length vs = 1
      then Inr (put_true2 x ms (replicate (count_true (concat ms)) (hd vs)))
      else Inl ValueError)"

subsection \<open>Loops, \<open>np.argmax\<close>, \<open>np.unravel_index\<close>, \<open>reshape\<close>\<close>

text \<open>\<open>for x in xs: state = body(x, state)\<close>, ended by the first exception.\<close>

fun for_each :: "'i list \<Rightarrow> ('i \<Rightarrow> 's \<Rightarrow> error + 's) \<Rightarrow> 's \<Rightarrow> error + 's" where
  "for_each [] body s = Inr s"
| "for_each (x # xs) body s =
     (case body x s of Inl e \<Rightarrow> Inl e | Inr s' \<Rightarrow> for_each xs body s')"

text \<open>\<open>np.argmax\<close> of a list that is not empty: the first index of the largest value.\<close>

fun argmax_from :: "nat \<Rightarrow> 'a :: linorder \<Rightarrow> nat \<Rightarrow> 'a list \<Rightarrow> nat" where
  "argmax_from best bv i [] = best"
| "argmax_from best bv i (x # xs) =
     (if bv < x then argmax_from i x (Suc i) xs else argmax_from best bv (Suc i) xs)"

definition np_argmax :: "'a :: linorder list \<Rightarrow> nat" where
  "np_argmax xs = argmax_from 0 (hd xs) 1 (tl xs)"


subsection \<open>\<open>longest_common_substring\<close>\<close>

text \<open>
  The counters are numpy integers and the reported indices may be \<open>-1\<close>: both are \<open>int\<close>.
  With \<open>vectorized\<close> (the default) each row of the table is written through boolean
  indices and the result is read off \<open>np.argmax\<close> of the flattened table; without it,
  two nested loops keep the first strictly longer match.
\<close>

definition lcs_scalar_step ::
  "ubyte list \<Rightarrow> ubyte list \<Rightarrow> nat \<times> nat \<Rightarrow> int list list \<times> int \<times> int \<times> int
     \<Rightarrow> int list list \<times> int \<times> int \<times> int" where
  "lcs_scalar_step a1 a2 = (\<lambda>(i1, i2) (counter, a1idx_longest, a2idx_longest, len_longest).
     if a1 ! i1 = a2 ! i2 then
       let c = counter ! i1 ! i2 + 1;
           counter' = counter[i1 + 1 := (counter ! (i1 + 1))[i2 + 1 := c]]
       in if len_longest < c then (counter', int i1 + 1 - c, int i2 + 1 - c, c)
          else (counter', a1idx_longest, a2idx_longest, len_longest)
     else (counter, a1idx_longest, a2idx_longest, len_longest))"

text \<open>The body of the vectorized loop:
  \<open>counter[i1 + 1, idx_shifted] = counter[i1, idx] + 1\<close>.\<close>

definition lcs_vectorized_step ::
  "index_rule \<Rightarrow> ubyte list \<Rightarrow> ubyte list \<Rightarrow> nat \<Rightarrow> int list list \<Rightarrow> error + int list list" where
  "lcs_vectorized_step rule a1 a2 i1 counter =
     (let idx = map (\<lambda>y. y = a1 ! i1) a2;
          idx_shifted = False # idx
      in case np_take_mask rule (counter ! i1) idx of
           Inl e \<Rightarrow> Inl e
         | Inr vals \<Rightarrow>
             (case np_put_mask rule (counter ! (i1 + 1)) idx_shifted (map (\<lambda>v. v + 1) vals) of
                Inl e \<Rightarrow> Inl e
              | Inr row \<Rightarrow> Inr (counter[i1 + 1 := row])))"

definition longest_common_substring ::
  "index_rule \<Rightarrow> ubyte list \<Rightarrow> ubyte list \<Rightarrow> bool \<Rightarrow> error + (int \<times> int \<times> int)" where
  "longest_common_substring rule a1 a2 vectorized =
     (let counter0 = replicate (length a1 + 1) (replicate (length a2 + 1) (0 :: int)) in
      if vectorized then
        (case for_each [0..<length a1] (lcs_vectorized_step rule a1 a2) counter0 of
           Inl e \<Rightarrow> Inl e
         | Inr counter \<Rightarrow>
             let flat = concat counter;
                 raveled = np_argmax flat;
                 idx_longest = (raveled div (length a2 + 1), raveled mod (length a2 + 1))
             in if 0 < fst idx_longest then
                  let len_longest = flat ! raveled
                  in Inr (int (fst idx_longest) - len_longest,
                          int (snd idx_longest) - len_longest, len_longest)
                else Inr (- 1, - 1, 0))
      else
        (case fold (lcs_scalar_step a1 a2)
                (concat (map (\<lambda>i1. map (Pair i1) [0..<length a2]) [0..<length a1]))
                (counter0, - 1, - 1, 0) of
           (counter, a1idx_longest, a2idx_longest, len_longest) \<Rightarrow>
             Inr (a1idx_longest, a2idx_longest, len_longest)))"

subsection \<open>\<open>_longest_common_substrings_pairs\<close> and \<open>longest_common_substrings_product\<close>\<close>

text \<open>
  The table has one slab of \<open>numpairs \<times> (len_a2 + 1)\<close> counters for every \<open>i1\<close>;
  \<open>pairs_step\<close> is the body of the loop. After the loop \<open>swapaxes\<close> and \<open>reshape\<close> lay the table of every pair out flat; \<open>np.argmax\<close>,
  the lengths and \<open>np.unravel_index\<close> are taken pair by pair.
\<close>

definition pairs_step ::
  "index_rule \<Rightarrow> ndarray2 \<Rightarrow> ndarray2 \<Rightarrow> nat \<Rightarrow> int list list list \<Rightarrow> error + int list list list" where
  "pairs_step rule a1s a2s i1 counter =
     (let len_a2 = ncols a2s;
          a1s_cp_col = map (\<lambda>r. r ! i1) (rows a1s);
          idx = map2 (\<lambda>r c. map (\<lambda>y. y = c) r) (rows a2s) a1s_cp_col;
          idx_shifted = map (\<lambda>m. False # m) idx
      in case np_take_mask2 rule (counter ! i1) (len_a2 + 1) idx len_a2 of
           Inl e \<Rightarrow> Inl e
         | Inr vals \<Rightarrow>
             (case np_put_mask2 rule (counter ! (i1 + 1)) (len_a2 + 1) idx_shifted (len_a2 + 1)
                     (map (\<lambda>v. v + 1) vals) of
                Inl e \<Rightarrow> Inl e
              | Inr slab \<Rightarrow> Inr (counter[i1 + 1 := slab])))"

definition longest_common_substrings_pairs ::
  "index_rule \<Rightarrow> ndarray2 \<Rightarrow> ndarray2 \<Rightarrow> error + (int list \<times> int list \<times> int list)" where
  "longest_common_substrings_pairs rule a1s a2s =
     (if shape0 a1s \<noteq> shape0 a2s then Inl AssertionError
      else
        let numpairs = shape0 a1s;
            len_a1 = ncols a1s;
            len_a2 = ncols a2s;
            counter0 = replicate (len_a1 + 1) (replicate numpairs (replicate (len_a2 + 1) (0 :: int)))
        in
        (case for_each [0..<len_a1] (pairs_step rule a1s a2s) counter0 of
           Inl e \<Rightarrow> Inl e
         | Inr counter \<Rightarrow>
             let counter_flat = map (\<lambda>k. concat (map (\<lambda>slab. slab ! k) counter)) [0..<numpairs];
                 idx_longest_raveled = map np_argmax counter_flat;
                 len_longest = map2 (\<lambda>flat i. flat ! i) counter_flat idx_longest_raveled;
                 idx_longest0 = map (\<lambda>i. int (i div (len_a2 + 1))) idx_longest_raveled;
                 idx_longest1 = map (\<lambda>i. int (i mod (len_a2 + 1))) idx_longest_raveled
             in Inr (map2 (-) idx_longest0 len_longest, map2 (-) idx_longest1 len_longest,
                     len_longest)))"


text \<open>
  What the loops compute, used in the proofs: row \<open>i\<close> of the table of match lengths of
  \<open>a1\<close> and \<open>a2\<close>. Row 0 is zero; in row \<open>i + 1\<close> the entry after position \<open>j\<close> is one
  more than the entry of row \<open>i\<close> at \<open>j\<close> where \<open>a2[j] = a1[i]\<close>, and zero elsewhere.
\<close>

definition dp_row :: "int list \<Rightarrow> ubyte list \<Rightarrow> ubyte \<Rightarrow> int list" where
  "dp_row prev a2 c = 0 # map2 (\<lambda>y p. if y = c then p + 1 else 0) a2 prev"

fun table_row :: "ubyte list \<Rightarrow> ubyte list \<Rightarrow> nat \<Rightarrow> int list" where
  "table_row a1 a2 0 = replicate (length a2 + 1) 0"
| "table_row a1 a2 (Suc i) = dp_row (table_row a1 a2 i) a2 (a1 ! i)"



subsection \<open>\<open>calculate_loop_energies\<close>\<close>

text \<open>
  The tables \<open>_dH\<close> and \<open>_dS\<close>, indexed by the pair key \<open>(first << 2) + second\<close>. The
  source holds them and the energies in floating point; the model computes with real
  numbers. What is proved about them below depends on the signs of the energies and on
  sums of values of one sign only.
\<close>

definition dH :: "real list" where
  "dH = [-7.6, -8.4, -7.8, -7.2, -8.5, -8.0, -10.6, -7.8,
         -8.2, -9.8, -8.0, -8.4, -7.2, -8.2, -8.5, -7.6]"

definition dS :: "real list" where
  "dS = [-21.3, -22.4, -21.0, -20.4, -22.7, -19.9, -27.2, -21.0,
         -22.2, -24.4, -19.9, -22.4, -21.3, -22.2, -22.7, -21.3]"

definition calculate_loop_energies :: "real \<Rightarrow> bool \<Rightarrow> real list" where
  "calculate_loop_energies temperature negate =
     (let energies = map2 (\<lambda>h s. h - (temperature + 273.15) * s / 1000.0) dH dS
      in if negate then map uminus energies else energies)"

subsection \<open>The energy-weighted matcher\<close>

text \<open>
  The state of the loop of
  \<open>_strongest_common_substrings_all_pairs_return_energies_and_counter\<close> is \<open>counter\<close>,
  \<open>energies\<close> and \<open>prev_match_shifted_idxs\<close> (\<open>None\<close> before the first pass).
  \<open>loop_energies[loops]\<close> raises IndexError for a key beyond the table; the keys are
  computed on bytes.
\<close>

definition strongest_step ::
  "index_rule \<Rightarrow> real list \<Rightarrow> ndarray2 \<Rightarrow> ndarray2 \<Rightarrow> nat
     \<Rightarrow> int list list list \<times> real list list list \<times> bool list list option
     \<Rightarrow> error + (int list list list \<times> real list list list \<times> bool list list option)" where
  "strongest_step rule loop_energies a1s a2s i1 =
     (\<lambda>(counter, energies, prev_match_shifted_idxs).
        let len_a2 = ncols a2s;
            a1s_col = map (\<lambda>r. r ! i1) (rows a1s);
            match_idxs = map2 (\<lambda>r c. map (\<lambda>y. y = c) r) (rows a2s) a1s_col;
            match_shifted_idxs = map (\<lambda>m. False # m) match_idxs
        in
        case np_take_mask2 rule (counter ! i1) (len_a2 + 1) match_idxs len_a2 of
          Inl e \<Rightarrow> Inl e
        | Inr vals \<Rightarrow>
        (case np_put_mask2 rule (counter ! (i1 + 1)) (len_a2 + 1) match_shifted_idxs
                (len_a2 + 1) (map (\<lambda>v. v + 1) vals) of
           Inl e \<Rightarrow> Inl e
         | Inr slab \<Rightarrow>
             if 0 < i1 then
               (case prev_match_shifted_idxs of
                  None \<Rightarrow> Inl TypeError
                | Some prev \<Rightarrow>
                    let prev_bases = map (\<lambda>r. r ! (i1 - 1)) (rows a1s);
                        cur_bases = map (\<lambda>r. r ! i1) (rows a1s);
                        loops = map2 (\<lambda>p c. push_bit 2 p + c) prev_bases cur_bases
                    in
                    (case comprehension (\<lambda>l. list_get loop_energies (unat l)) loops of
                       Inl e \<Rightarrow> Inl e
                     | Inr latest_energies \<Rightarrow>
                         let latest_energies_rp = map (replicate len_a2) latest_energies;
                             match_idxs_false_at_end = map (\<lambda>m. m @ [False]) match_idxs;
                             both_match_idxs = map2 (map2 (\<and>)) match_idxs_false_at_end prev;
                             prev_match_shifted_shifted_idxs = map (\<lambda>m. butlast (False # m)) prev;
                             both_match_shifted_idxs =
                               map2 (map2 (\<and>)) match_shifted_idxs prev_match_shifted_shifted_idxs
                         in
                         (case np_take_mask2 rule (energies ! i1) (len_a2 + 1) both_match_idxs
                                 (len_a2 + 1) of
                            Inl e \<Rightarrow> Inl e
                          | Inr old \<Rightarrow>
                          (case np_take_mask2 rule latest_energies_rp len_a2 both_match_idxs
                                  (len_a2 + 1) of
                             Inl e \<Rightarrow> Inl e
                           | Inr latest \<Rightarrow>
                           (case np_put_mask2 rule (energies ! (i1 + 1)) (len_a2 + 1)
                                   both_match_shifted_idxs (len_a2 + 1) (map2 (+) old latest) of
                              Inl e \<Rightarrow> Inl e
                            | Inr eslab \<Rightarrow>
                                Inr (counter[i1 + 1 := slab], energies[i1 + 1 := eslab],
                                     Some match_shifted_idxs))))))
             else Inr (counter[i1 + 1 := slab], energies, Some match_shifted_idxs)))"

text \<open>The function returns the two tables with their first two axes swapped: one
  table per pair.\<close>

definition np_swapaxes01 :: "nat \<Rightarrow> 'a list list list \<Rightarrow> 'a list list list" where
  "np_swapaxes01 numpairs t = map (\<lambda>k. map (\<lambda>slab. slab ! k) t) [0..<numpairs]"

definition strongest_return_energies_and_counter ::
  "index_rule \<Rightarrow> ndarray2 \<Rightarrow> ndarray2 \<Rightarrow> real
     \<Rightarrow> error + (int list list list \<times> real list list list)" where
  "strongest_return_energies_and_counter rule a1s a2s temperature =
     (if shape0 a1s \<noteq> shape0 a2s then Inl AssertionError
      else
        let numpairs = shape0 a1s;
            len_a1 = ncols a1s;
            len_a2 = ncols a2s;
            counter0 = replicate (len_a1 + 1) (replicate numpairs (replicate (len_a2 + 1) (0 :: int)));
            energies0 = replicate (len_a1 + 1) (replicate numpairs (replicate (len_a2 + 1) (0 :: real)));
            loop_energies = calculate_loop_energies temperature False
        in
        (case for_each [0..<len_a1] (strongest_step rule loop_energies a1s a2s)
                (counter0, energies0, None) of
           Inl e \<Rightarrow> Inl e
         | Inr (counter, energies, prev) \<Rightarrow>
             Inr (np_swapaxes01 numpairs counter, np_swapaxes01 numpairs energies)))"

definition strongest_common_substrings_all_pairs ::
  "index_rule \<Rightarrow> ndarray2 \<Rightarrow> ndarray2 \<Rightarrow> real
     \<Rightarrow> error + (int list \<times> int list \<times> int list \<times> real list)" where
  "strongest_common_substrings_all_pairs rule a1s a2s temperature =
     (let len_a2 = ncols a2s in
      case strongest_return_energies_and_counter rule a1s a2s temperature of
        Inl e \<Rightarrow> Inl e
      | Inr (counter, energies) \<Rightarrow>
          let counter_flat = map concat counter;
              energies_flat = map concat energies;
              idx_strongest_raveled = map np_argmax energies_flat;
              len_strongest = map2 (\<lambda>flat i. flat ! i) counter_flat idx_strongest_raveled;
              energy_strongest = map2 (\<lambda>flat i. flat ! i) energies_flat idx_strongest_raveled;
              idx_strongest0 = map (\<lambda>i. int (i div (len_a2 + 1))) idx_strongest_raveled;
              idx_strongest1 = map (\<lambda>i. int (i mod (len_a2 + 1))) idx_strongest_raveled
          in Inr (map2 (-) idx_strongest0 len_strongest, map2 (-) idx_strongest1 len_strongest,
                  len_strongest, energy_strongest))"





section \<open>Verification\<close>

subsection \<open>Codec round trip\<close>

lemma seq2arr_Cons:
  "seq2arr (c # s) =
     (case dict_get base2bits c of
        Inl e \<Rightarrow> Inl e
      | Inr y \<Rightarrow> (case seq2arr s of Inl e \<Rightarrow> Inl e | Inr ys \<Rightarrow> Inr (y # ys)))"
  unfolding seq2arr_def by simp

lemma arr2seq_Cons:
  "arr2seq (b # bs) =
     (case list_get bits2base (unat b) of
        Inl e \<Rightarrow> Inl e
      | Inr y \<Rightarrow> (case arr2seq bs of Inl e \<Rightarrow> Inl e | Inr ys \<Rightarrow> Inr (y # ys)))"
  unfolding arr2seq_def by simp

lemma decode_encode_base:
  assumes "c \<in> set bits2base"
  shows "\<exists>b. dict_get base2bits c = Inr b \<and> list_get bits2base (unat b) = Inr c"
  using assms by (auto simp: bits2base_def base2bits_def dict_get_def list_get_def)

text \<open>
  Claim C8. For every string \<open>s\<close> over the four symbols A, C, G, T, decoding the encoding
  of \<open>s\<close> gives \<open>s\<close> back: \<open>seq2arr\<close> raises nothing on it and \<open>arr2seq\<close> of its result
  is \<open>s\<close>. The empty string is included, so every length from 1 on is covered.
\<close>

theorem arr2seq_seq2arr:
  assumes "set s \<subseteq> set bits2base"
  shows "\<exists>arr. seq2arr s = Inr arr \<and> arr2seq arr = Inr s"
  using assms
proof (induction s)
  case Nil
  show ?case by (simp add: seq2arr_def arr2seq_def)
next
  case (Cons c s)
  from Cons.prems have "c \<in> set bits2base" and "set s \<subseteq> set bits2base"
    by simp_all
  from decode_encode_base [OF this(1)] obtain b
    where b: "dict_get base2bits c = Inr b" "list_get bits2base (unat b) = Inr c"
    by blast
  from Cons.IH [OF \<open>set s \<subseteq> set bits2base\<close>] obtain arr
    where arr: "seq2arr s = Inr arr" "arr2seq arr = Inr s"
    by blast
  have "seq2arr (c # s) = Inr (b # arr)"
    by (simp add: seq2arr_Cons b arr)
  moreover have "arr2seq (b # arr) = Inr (c # s)"
    by (simp add: arr2seq_Cons b arr)
  ultimately show ?case by blast
qed

theorem arr2seq_seq2arr_witness:
  "seq2arr ''GATTACA'' = Inr [2, 0, 3, 3, 0, 1, 0] \<and> arr2seq [2, 0, 3, 3, 0, 1, 0] = Inr ''GATTACA''"
proof -
  have "set ''GATTACA'' \<subseteq> set bits2base"
    by (simp add: bits2base_def)
  from arr2seq_seq2arr [OF this] obtain arr
    where arr: "seq2arr ''GATTACA'' = Inr arr" "arr2seq arr = Inr ''GATTACA''"
    by blast
  have "seq2arr ''GATTACA'' = Inr [2, 0, 3, 3, 0, 1, 0]"
    by (simp add: seq2arr_def dict_get_def base2bits_def)
  with arr show ?thesis by simp
qed

subsection \<open>Reverse complement\<close>

lemma complement_twice: "(3::ubyte) - (3 - x) = x"
  by simp

text \<open>
  Claim C10. \<open>wc_arr\<close> is an involution: applying it twice to a two-dimensional array of
  codes gives the array back. On bytes \<open>3 - (3 - x) = x\<close> holds for every value, so the
  statement needs no restriction to the codes 0 to 3.
\<close>

theorem wc_arr_involution: "wc_arr (wc_arr m) = m"
  by (simp add: wc_arr_def rev_map o_def)

subsection \<open>The constructor takes exactly one source\<close>

text \<open>
  Claim C7. The constructor needs exactly one of \<open>length\<close>, \<open>seqs\<close>, \<open>seqarr\<close> and
  \<open>filename\<close>: whenever the number of those that are not \<open>None\<close> differs from one (two
  or more, or none), it raises ValueError, whatever the other arguments, the files and
  the generator are.
\<close>

theorem init_needs_exactly_one_source:
  assumes "length (filter (\<lambda>b. b)
             [arg_length a \<noteq> None, arg_seqs a \<noteq> None, arg_seqarr a \<noteq> None,
              arg_filename a \<noteq> None]) \<noteq> 1"
  shows "DNASeqList_init E a = Inl ValueError"
proof (cases "arg_length a")
  case None
  note len = this
  show ?thesis
  proof (cases "arg_seqs a")
    case None
    note seqs = this
    show ?thesis
    proof (cases "arg_seqarr a")
      case None
      with len seqs assms show ?thesis
        by (cases "arg_filename a") (simp_all add: DNASeqList_init_def)
    next
      case (Some arr)
      with len seqs assms show ?thesis
        by (cases "arg_filename a") (simp_all add: DNASeqList_init_def)
    qed
  next
    case (Some ss)
    with len assms show ?thesis
      by (cases "arg_seqarr a"; cases "arg_filename a") (simp_all add: DNASeqList_init_def)
  qed
next
  case (Some l)
  with assms show ?thesis
    by (cases "arg_seqs a"; cases "arg_seqarr a"; cases "arg_filename a")
       (simp_all add: DNASeqList_init_def)
qed

theorem init_needs_exactly_one_source_witness:
  "DNASeqList_init
     \<lparr>files = Map.empty, rng_shuffle = (\<lambda>g xs. (xs, g)), rng_choice = (\<lambda>g xs n m. ([], g)),
      py_int = (\<lambda>s. None), default_rng = ()\<rparr> (default_args ()) = Inl ValueError \<and>
   DNASeqList_init
     \<lparr>files = Map.empty, rng_shuffle = (\<lambda>g xs. (xs, g)), rng_choice = (\<lambda>g xs n m. ([], g)),
      py_int = (\<lambda>s. None), default_rng = ()\<rparr>
     ((default_args ())\<lparr>arg_length := Some 3, arg_seqs := Some [''ACG'']\<rparr>) = Inl ValueError"
proof -
  let ?E = "\<lparr>files = Map.empty, rng_shuffle = (\<lambda>g xs. (xs, g)),
      rng_choice = (\<lambda>g xs n m. ([], g)), py_int = (\<lambda>s. None), default_rng = ()\<rparr>"
  from init_needs_exactly_one_source [of "default_args ()" ?E]
    init_needs_exactly_one_source
      [of "(default_args ())\<lparr>arg_length := Some 3, arg_seqs := Some [''ACG'']\<rparr>" ?E]
  show ?thesis
    by (simp add: default_args_def)
qed

subsection \<open>The writer's header against the reader's\<close>

lemma digit_char_not_space: "d < 10 \<Longrightarrow> \<not> isspace (digit_char d)"
proof -
  assume "d < 10"
  then have "d \<in> {0, 1, 2, 3, 4, 5, 6, 7, 8, 9}"
    by auto
  then show ?thesis
    by (auto simp: isspace_def digit_char_def)
qed

lemma str_nat_no_space: "list_all (\<lambda>c. \<not> isspace c) (str_nat n)"
proof (induction n rule: str_nat.induct)
  case (1 n)
  show ?case
  proof (cases "n < 10")
    case True
    then show ?thesis by (subst str_nat.simps) (simp add: digit_char_not_space)
  next
    case False
    with 1 have "list_all (\<lambda>c. \<not> isspace c) (str_nat (n div 10))" by simp
    with False show ?thesis
      by (subst str_nat.simps) (simp add: digit_char_not_space)
  qed
qed

lemma str_nat_not_Nil: "str_nat n \<noteq> []"
  by (subst str_nat.simps) simp

lemma minus_not_space: "\<not> isspace CHR ''-''"
  by (simp add: isspace_def)

lemma str_int_no_space: "list_all (\<lambda>c. \<not> isspace c) (str_int i)"
  by (simp add: str_int_def str_nat_no_space minus_not_space)

lemma str_int_not_Nil: "str_int i \<noteq> []"
  by (simp add: str_int_def str_nat_not_Nil)

lemma split_from_token:
  "list_all (\<lambda>c. \<not> isspace c) tok \<Longrightarrow> split_from acc (tok @ rest) = split_from (acc @ tok) rest"
  by (induction tok arbitrary: acc) simp_all

lemma readline_token:
  "list_all (\<lambda>c. \<not> isspace c) tok \<Longrightarrow>
     readline (tok @ rest) = (tok @ fst (readline rest), snd (readline rest))"
  by (induction tok) (auto simp: isspace_def split: prod.splits)

lemma space_is_space: "isspace CHR '' ''" and newline_is_space: "isspace CHR 0x0A"
  by (simp_all add: isspace_def)

lemma header_readline:
  assumes "list_all (\<lambda>c. \<not> isspace c) t1" "list_all (\<lambda>c. \<not> isspace c) t2"
  shows "readline (t1 @ '' '' @ t2 @ [CHR 0x0A] @ body) = (t1 @ '' '' @ t2 @ [CHR 0x0A], body)"
proof -
  have "readline (t2 @ CHR 0x0A # body) = (t2 @ [CHR 0x0A], body)"
    by (simp add: readline_token [OF assms(2)])
  then have "readline (CHR '' '' # t2 @ CHR 0x0A # body) = (CHR '' '' # t2 @ [CHR 0x0A], body)"
    by simp
  then show ?thesis
    by (simp add: readline_token [OF assms(1)])
qed

lemma header_split:
  assumes "list_all (\<lambda>c. \<not> isspace c) t1" "list_all (\<lambda>c. \<not> isspace c) t2"
    and "t1 \<noteq> []" "t2 \<noteq> []"
  shows "py_split (t1 @ '' '' @ t2 @ [CHR 0x0A]) = [t1, t2]"
proof -
  have "split_from [] (t2 @ [CHR 0x0A]) = [t2]"
    using assms(4) by (simp add: split_from_token [OF assms(2)] newline_is_space)
  then have "split_from t1 (CHR '' '' # t2 @ [CHR 0x0A]) = [t1, t2]"
    using assms(3) by (simp add: space_is_space)
  then show ?thesis
    by (simp add: py_split_def split_from_token [OF assms(1)])
qed

lemma read_written_header:
  assumes "files E filename = Some (str_int n @ '' '' @ str_int l @ [CHR 0x0A] @ body)"
  shows "read_from_file E filename = Inl ValueError"
  using assms
  by (simp add: read_from_file_def
      header_readline [OF str_int_no_space str_int_no_space, simplified]
      header_split [OF str_int_no_space str_int_no_space str_int_not_Nil str_int_not_Nil,
        simplified])

text \<open>
  Claim C6. The writer and the reader do not agree on the header: \<open>write_to_file\<close>
  writes the two fields \<open>numseqs\<close> and \<open>seqlen\<close>, the reader unpacks three. So for every
  \<open>DNASeqList\<close>, constructing a \<open>DNASeqList\<close> from the file that \<open>write_to_file\<close> has
  written (with \<open>filename\<close> as the only source, every other argument at its default)
  raises ValueError, also when the writer itself stopped on an exception after the
  header.
\<close>

theorem written_file_is_refused:
  "DNASeqList_init (snd (write_to_file E self filename))
     ((default_args g)\<lparr>arg_filename := Some filename\<rparr>) = Inl ValueError"
proof -
  obtain body r where w: "write_lines self [0..<nat (numseqs self)] = (body, r)"
    by (cases "write_lines self [0..<nat (numseqs self)]")
  have "files (snd (write_to_file E self filename)) filename =
      Some (str_int (numseqs self) @ '' '' @ str_int (seqlen self) @ [CHR 0x0A] @ body)"
    by (simp add: write_to_file_def w)
  from read_written_header [OF this] show ?thesis
    by (simp add: DNASeqList_init_def default_args_def)
qed

theorem written_file_is_refused_witness:
  "write_to_file \<lparr>files = Map.empty, rng_shuffle = (\<lambda>g xs. (xs, g)),
       rng_choice = (\<lambda>g xs n m. ([], g)), py_int = (\<lambda>s. None), default_rng = ()\<rparr>
     \<lparr>seqarr = \<lparr>ncols = 2, rows = [[0, 1]]\<rparr>, numseqs = 1, seqlen = 2, rng = (),
       shift = [2, 0]\<rparr> ''f''
   = (None, \<lparr>files = [''f'' \<mapsto> ''1 2'' @ [CHR 0x0A] @ ''AC'' @ [CHR 0x0A]],
       rng_shuffle = (\<lambda>g xs. (xs, g)), rng_choice = (\<lambda>g xs n m. ([], g)),
       py_int = (\<lambda>s. None), default_rng = ()\<rparr>) \<and>
   DNASeqList_init
     (snd (write_to_file \<lparr>files = Map.empty, rng_shuffle = (\<lambda>g xs. (xs, g)),
       rng_choice = (\<lambda>g xs n m. ([], g)), py_int = (\<lambda>s. None), default_rng = ()\<rparr>
     \<lparr>seqarr = \<lparr>ncols = 2, rows = [[0, 1]]\<rparr>, numseqs = 1, seqlen = 2, rng = (),
       shift = [2, 0]\<rparr> ''f''))
     ((default_args ())\<lparr>arg_filename := Some ''f''\<rparr>) = Inl ValueError"
proof -
  have "[0..<nat 1] = [0]"
    by simp
  then have "write_to_file \<lparr>files = Map.empty, rng_shuffle = (\<lambda>g xs. (xs, g)),
       rng_choice = (\<lambda>g xs n m. ([], g)), py_int = (\<lambda>s. None), default_rng = ()\<rparr>
     \<lparr>seqarr = \<lparr>ncols = 2, rows = [[0, 1]]\<rparr>, numseqs = 1, seqlen = 2, rng = (),
       shift = [2, 0]\<rparr> ''f''
   = (None, \<lparr>files = [''f'' \<mapsto> ''1 2'' @ [CHR 0x0A] @ ''AC'' @ [CHR 0x0A]],
       rng_shuffle = (\<lambda>g xs. (xs, g)), rng_choice = (\<lambda>g xs n m. ([], g)),
       py_int = (\<lambda>s. None), default_rng = ()\<rparr>)"
    by (simp add: write_to_file_def get_seq_str_def list_get_def arr2seq_def bits2base_def
        str_int_def digit_char_def str_nat.simps)
  then show ?thesis
    by (rule conjI) (rule written_file_is_refused)
qed

subsection \<open>The Hamming filter\<close>

text \<open>
  Claim C2 says that after \<open>filter_hamming(threshold)\<close> any two retained rows are at
  Hamming distance at least \<open>threshold\<close>. The inner loop of the source tests a popped
  row only while the working set is not empty, so the row popped last is appended to
  the retained rows untested. On the two rows AA and AC with threshold 2, whatever the
  shuffle does to the one row left after the first pop, both rows are retained, at
  distance 1.
\<close>

theorem filter_hamming_keeps_last_row:
  assumes "mset (fst (rng_shuffle E g [[0, 0]])) = mset [[0, 0]]"
  shows "\<exists>self'.
     filter_hamming E 2
       \<lparr>seqarr = \<lparr>ncols = 2, rows = [[0, 0], [0, 1]]\<rparr>, numseqs = 2, seqlen = 2, rng = g,
        shift = [2, 0]\<rparr> = Inr self' \<and>
     rows (seqarr self') = [[0, 1], [0, 0]] \<and> hamming [0, 1] [0, 0] = 1"
proof -
  obtain rs g' where sh: "rng_shuffle E g [[0, 0]] = (rs, g')"
    by (cases "rng_shuffle E g [[0, 0]]")
  with assms have "mset rs = {#[0, 0]#}"
    by simp
  then have rs: "rs = [[0, 0]]"
    by (metis mset_single_iff_right)
  show ?thesis
    by (simp add: filter_hamming_def pop_array_def shuffle_def sh rs hamming_outer.simps
        hamming_inner.simps shape0_def hamming_def)
qed

theorem filter_hamming_keeps_last_row_witness:
  "\<exists>self'.
     filter_hamming
       \<lparr>files = Map.empty, rng_shuffle = (\<lambda>g xs. (xs, g)), rng_choice = (\<lambda>g xs n m. ([], g)),
        py_int = (\<lambda>s. None), default_rng = ()\<rparr> 2
       \<lparr>seqarr = \<lparr>ncols = 2, rows = [[0, 0], [0, 1]]\<rparr>, numseqs = 2, seqlen = 2, rng = (),
        shift = [2, 0]\<rparr> = Inr self' \<and>
     rows (seqarr self') = [[0, 1], [0, 0]] \<and> hamming [0, 1] [0, 0] = 1"
  by (rule filter_hamming_keeps_last_row) simp

subsection \<open>Exhaustive enumeration\<close>


















text \<open>The codes of a list of bases.\<close>

lemma base_bits_valid:
  assumes "set bases \<subseteq> set bits2base"
  shows "comprehension (dict_get base2bits) bases = Inr (map (\<lambda>b. the (base2bits b)) bases)"
  using assms
  by (induction bases) (auto simp: bits2base_def base2bits_def dict_get_def)






subsection \<open>The substring filter\<close>

lemma np_roll_zeros:
  assumes "i \<le> m"
  shows "np_roll (xs @ replicate m (0 :: int64)) i = replicate i 0 @ xs @ replicate (m - i) 0"
proof (cases "i < length xs + m")
  case True
  with assms show ?thesis
    by (simp add: np_roll_def Let_def)
next
  case False
  with assms have "length xs = 0 \<and> i = m" by arith
  then have "xs = []" "i = m" by simp_all
  then show ?thesis
    by (simp add: np_roll_def Let_def)
qed

lemma powarr_fits:
  assumes "k \<le> 32"
  shows "\<not> list_ex (\<lambda>p. 2 ^ 63 - 1 < p) (map (\<lambda>j. (4 :: int) ^ j) [0..<k])"
proof -
  have "(4 :: int) ^ j \<le> 2 ^ 63 - 1" if "j < k" for j
  proof -
    from that assms have "j \<le> 31" by simp
    then have "(4 :: int) ^ j \<le> 4 ^ 31"
      by (intro power_increasing) simp_all
    then show ?thesis by simp
  qed
  then show ?thesis
    by (auto simp: list_ex_iff not_less)
qed

lemma create_toeplitz_rows:
  assumes "k \<le> n" "k \<le> 32"
  shows "create_toeplitz (int n) k =
     Inr (map (\<lambda>i. replicate i 0 @ map (\<lambda>j. 4 ^ j) [0..<k] @ replicate (n - k - i) 0)
            [0..<Suc (n - k)])"
proof -
  have nrows: "nat (int n - (int k - 1)) = Suc (n - k)"
    using assms(1) by simp
  have rows: "map (\<lambda>i. np_roll (map (\<lambda>j. 4 ^ j) [0..<k] @ replicate (n - k) (0 :: int64)) i)
          [0..<Suc (n - k)]
      = map (\<lambda>i. replicate i 0 @ map (\<lambda>j. 4 ^ j) [0..<k] @ replicate (n - k - i) 0)
          [0..<Suc (n - k)]"
    by (rule map_cong [OF refl]) (simp add: np_roll_zeros del: upt_Suc)
  from assms(1) powarr_fits [OF assms(2)] show ?thesis
    by (simp add: create_toeplitz_def Let_def nrows o_def rows del: upt_Suc)
qed

lemma np_dot_zeros_left: "np_dot (replicate i 0 @ xs) ys = np_dot xs (drop i ys)"
proof (induction i arbitrary: ys)
  case 0
  then show ?case by simp
next
  case (Suc i)
  then show ?case
    by (cases ys) (simp_all add: np_dot_def)
qed

lemma np_dot_zeros_only: "np_dot (replicate z 0) ys = 0"
  using np_dot_zeros_left [of z "[]" ys] by (simp add: np_dot_def)

lemma np_dot_zeros_right: "np_dot (xs @ replicate z 0) ys = np_dot xs (take (length xs) ys)"
proof -
  have "np_dot (xs @ replicate z 0) ys
      = np_dot xs (take (length xs) ys) + np_dot (replicate z 0) (drop (length xs) ys)"
    by (simp add: np_dot_def zip_append1)
  then show ?thesis
    by (simp add: np_dot_zeros_only)
qed

lemma np_dot_window:
  "np_dot (replicate i 0 @ pw @ replicate z 0) ys = np_dot pw (take (length pw) (drop i ys))"
  by (simp add: np_dot_zeros_left np_dot_zeros_right)

lemma np_dot_commute: "np_dot xs ys = np_dot ys xs"
proof -
  have "map2 (*) xs ys = map2 (*) ys xs"
    by (induction xs ys rule: list_induct2') (simp_all add: mult.commute)
  then show ?thesis
    by (simp add: np_dot_def)
qed

lemma np_dot_scale: "np_dot (map ((*) c) xs) ys = c * np_dot xs ys"
  by (induction xs ys rule: list_induct2') (simp_all add: np_dot_def algebra_simps)

lemma powers_Suc:
  "map (\<lambda>j. (4 :: int64) ^ j) [0..<Suc n] = 1 # map ((*) 4) (map (\<lambda>j. 4 ^ j) [0..<n])"
  by (simp add: upt_conv_Cons map_Suc_upt [symmetric] del: upt_Suc)

lemma np_dot_powers:
  "np_dot (map (\<lambda>j. 4 ^ j) [0..<length w]) (map ucast w) = of_nat (window_value w)"
proof (induction w)
  case Nil
  show ?case by (simp add: np_dot_def)
next
  case (Cons x w)
  have "np_dot (map (\<lambda>j. 4 ^ j) [0..<length (x # w)]) (map ucast (x # w))
      = ucast x + 4 * np_dot (map (\<lambda>j. 4 ^ j) [0..<length w]) (map ucast w)"
  proof -
    let ?P = "map (\<lambda>j. (4 :: int64) ^ j) [0..<length w]"
    have "np_dot (1 # map ((*) 4) ?P) (ucast x # map ucast w)
        = ucast x + np_dot (map ((*) 4) ?P) (map ucast w)"
      by (simp add: np_dot_def)
    also have "\<dots> = ucast x + 4 * np_dot ?P (map ucast w)"
      by (simp only: np_dot_scale)
    finally show ?thesis
      by (simp only: length_Cons powers_Suc list.map)
  qed
  with Cons.IH show ?case
    by simp
qed

lemma window_value_bound:
  "list_all (\<lambda>x. x < 4) w \<Longrightarrow> window_value w < 4 ^ length w"
proof (induction w)
  case Nil
  show ?case by simp
next
  case (Cons x w)
  then have "unat x < 4" "window_value w < 4 ^ length w"
    by (simp_all add: word_less_nat_alt)
  then show ?case by simp
qed

lemma window_value_inj:
  assumes "length w = length w'" "list_all (\<lambda>x. x < 4) w" "list_all (\<lambda>x. x < 4) w'"
    and "window_value w = window_value w'"
  shows "w = w'"
  using assms
proof (induction w w' rule: list_induct2)
  case Nil
  show ?case by simp
next
  case (Cons x w y w')
  then have "unat x < 4" "unat y < 4"
    by (simp_all add: word_less_nat_alt)
  moreover from Cons.prems have "unat x + 4 * window_value w = unat y + 4 * window_value w'"
    by simp
  ultimately have "unat x = unat y" "window_value w = window_value w'"
    by presburger+
  with Cons show ?case by (simp add: word_unat_eq_iff)
qed

lemma window_value_word_eq:
  assumes "length w = length w'" "length w \<le> 32"
    and "list_all (\<lambda>x. x < 4) w" "list_all (\<lambda>x. x < 4) w'"
  shows "(of_nat (window_value w) :: int64) = of_nat (window_value w') \<longleftrightarrow> w = w'"
proof
  assume eq: "(of_nat (window_value w) :: int64) = of_nat (window_value w')"
  have small: "window_value v < 2 ^ 64" if "length v = length w" "list_all (\<lambda>x. x < 4) v" for v
  proof -
    from that(1) assms(2) have "(4 :: nat) ^ length v \<le> 4 ^ 32"
      by (intro power_increasing) simp_all
    with window_value_bound [OF that(2)] show ?thesis by simp
  qed
  from eq have "unat (of_nat (window_value w) :: int64) = unat (of_nat (window_value w') :: int64)"
    by simp
  with small [of w] small [of w'] assms have "window_value w = window_value w'"
    by (simp add: unat_of_nat)
  with assms show "w = w'"
    by (intro window_value_inj)
qed simp

lemma sublist_iff_window:
  assumes "length w \<le> length r"
  shows "sublist w r \<longleftrightarrow> (\<exists>i < Suc (length r - length w). take (length w) (drop i r) = w)"
proof
  assume "sublist w r"
  then obtain ps ss where r: "r = ps @ w @ ss"
    by (auto simp: sublist_def)
  then have "length ps < Suc (length r - length w)" "take (length w) (drop (length ps) r) = w"
    by simp_all
  then show "\<exists>i < Suc (length r - length w). take (length w) (drop i r) = w"
    by blast
next
  assume "\<exists>i < Suc (length r - length w). take (length w) (drop i r) = w"
  then obtain i where "take (length w) (drop i r) = w"
    by blast
  then have "r = take i r @ w @ drop (length w) (drop i r)"
    by (metis append_take_drop_id)
  then show "sublist w r"
    by (metis sublist_appendI)
qed

lemma convolution_column:
  assumes "length r = n" "k \<le> n"
  shows "map (\<lambda>t. np_dot t (map ucast r))
           (map (\<lambda>i. replicate i 0 @ map (\<lambda>j. 4 ^ j) [0..<k] @ replicate (n - k - i) 0)
              [0..<Suc (n - k)])
         = map (\<lambda>i. of_nat (window_value (take k (drop i r)))) [0..<Suc (n - k)]"
proof -
  have "np_dot (replicate i 0 @ map (\<lambda>j. 4 ^ j) [0..<k] @ replicate (n - k - i) 0) (map ucast r)
      = of_nat (window_value (take k (drop i r)))" if "i < Suc (n - k)" for i
  proof -
    from that assms have len: "length (take k (drop i r)) = k"
      by simp
    have "np_dot (replicate i 0 @ map (\<lambda>j. 4 ^ j) [0..<k] @ replicate (n - k - i) 0) (map ucast r)
        = np_dot (map (\<lambda>j. 4 ^ j) [0..<k]) (map ucast (take k (drop i r)))"
      by (simp only: np_dot_window length_map length_upt take_map drop_map) simp
    also have "\<dots> = of_nat (window_value (take k (drop i r)))"
      using np_dot_powers [of "take k (drop i r)"] by (simp only: len)
    finally show ?thesis .
  qed
  then show ?thesis
    by (simp del: upt_Suc)
qed

lemma pass_loop_all:
  assumes "length passall = length convolution"
  shows "pass_loop convolution subvals passall
    = Inr (map2 (\<lambda>p col. p \<and> list_all (\<lambda>sv. list_all (\<lambda>v. v \<noteq> sv) col) subvals)
             passall convolution)"
  using assms
proof (induction subvals arbitrary: passall)
  case Nil
  then have "map2 (\<lambda>p col. p) passall convolution = passall"
    by (induction passall convolution rule: list_induct2) simp_all
  then show ?case by simp
next
  case (Cons sv subvals)
  let ?p = "map2 (\<and>) passall (map (\<lambda>col. list_all (\<lambda>v. v \<noteq> sv) col) convolution)"
  from Cons.prems have step: "np_and passall (map (\<lambda>col. list_all (\<lambda>v. v \<noteq> sv) col) convolution)
      = Inr ?p"
    by (simp add: np_and_def)
  from Cons.prems have "length ?p = length convolution"
    by simp
  from Cons.IH [OF this] have "pass_loop convolution subvals ?p
      = Inr (map2 (\<lambda>p col. p \<and> list_all (\<lambda>sv. list_all (\<lambda>v. v \<noteq> sv) col) subvals)
               ?p convolution)" .
  moreover from Cons.prems
  have "map2 (\<lambda>p col. p \<and> list_all (\<lambda>sv. list_all (\<lambda>v. v \<noteq> sv) col) subvals) ?p convolution
      = map2 (\<lambda>p col. p \<and> list_all (\<lambda>sv. list_all (\<lambda>v. v \<noteq> sv) col) (sv # subvals))
          passall convolution"
    by (induction passall convolution rule: list_induct2) auto
  ultimately show ?case
    by (simp add: step)
qed

lemma pass_loop_ones:
  "pass_loop (map C rs) subvals (replicate (length rs) True)
    = Inr (map (\<lambda>r. list_all (\<lambda>sv. list_all (\<lambda>v. v \<noteq> sv) (C r)) subvals) rs)"
proof -
  have "map2 (\<lambda>p col. p \<and> list_all (\<lambda>sv. list_all (\<lambda>v. v \<noteq> sv) col) subvals)
          (replicate (length rs) True) (map C rs)
      = map (\<lambda>r. list_all (\<lambda>sv. list_all (\<lambda>v. v \<noteq> sv) (C r)) subvals) rs"
    by (induction rs) simp_all
  then show ?thesis
    by (simp add: pass_loop_all)
qed

lemma mask_rows_map: "mask_rows xs (map P xs) = Inr (filter P xs)"
proof -
  have "map fst (filter snd (zip xs (map P xs))) = filter P xs"
    by (induction xs) simp_all
  then show ?thesis
    by (simp add: mask_rows_def)
qed

text \<open>Codes and symbols.\<close>

lemma arr2seq_codes:
  assumes "list_all (\<lambda>x. x < 4) r"
  shows "arr2seq r = Inr (map (\<lambda>b. bits2base ! unat b) r)"
  using assms
proof (induction r)
  case Nil
  show ?case by (simp add: arr2seq_def)
next
  case (Cons b r)
  then have "unat b < 4" by (simp add: word_less_nat_alt)
  then have "list_get bits2base (unat b) = Inr (bits2base ! unat b)"
    by (simp add: list_get_def bits2base_def)
  with Cons show ?case
    by (simp add: arr2seq_Cons)
qed

lemma code_of_base:
  assumes "c \<in> set bits2base"
  shows "the (base2bits c) < 4" and "bits2base ! unat (the (base2bits c)) = c"
  using assms by (auto simp: bits2base_def base2bits_def)

lemma base_of_code:
  assumes "b < (4 :: ubyte)"
  shows "the (base2bits (bits2base ! unat b)) = b"
proof -
  from assms have "unat b < 4" by (simp add: word_less_nat_alt)
  then have "unat b \<in> {0, 1, 2, 3}" by auto
  then have "b \<in> {0, 1, 2, 3}"
    by (auto simp: word_unat_eq_iff)
  then show ?thesis
    by (auto simp: bits2base_def base2bits_def)
qed

lemma sublist_codes_iff:
  assumes "set sub \<subseteq> set bits2base" "list_all (\<lambda>x. x < 4) r"
  shows "sublist (map (\<lambda>c. the (base2bits c)) sub) r
    \<longleftrightarrow> sublist sub (map (\<lambda>b. bits2base ! unat b) r)"
proof
  assume "sublist (map (\<lambda>c. the (base2bits c)) sub) r"
  then have "sublist (map (\<lambda>b. bits2base ! unat b) (map (\<lambda>c. the (base2bits c)) sub))
      (map (\<lambda>b. bits2base ! unat b) r)"
    by (rule map_mono_sublist)
  moreover from assms(1) have "map (\<lambda>b. bits2base ! unat b) (map (\<lambda>c. the (base2bits c)) sub) = sub"
    by (induction sub) (simp_all add: code_of_base)
  ultimately show "sublist sub (map (\<lambda>b. bits2base ! unat b) r)"
    by simp
next
  assume "sublist sub (map (\<lambda>b. bits2base ! unat b) r)"
  then have "sublist (map (\<lambda>c. the (base2bits c)) sub)
      (map (\<lambda>c. the (base2bits c)) (map (\<lambda>b. bits2base ! unat b) r))"
    by (rule map_mono_sublist)
  moreover from assms(2) have "map (\<lambda>c. the (base2bits c)) (map (\<lambda>b. bits2base ! unat b) r) = r"
    by (induction r) (simp_all add: base_of_code)
  ultimately show "sublist (map (\<lambda>c. the (base2bits c)) sub) r"
    by simp
qed

lemma subints_valid:
  assumes "list_all (\<lambda>sub. set sub \<subseteq> set bits2base) subs"
  shows "comprehension (\<lambda>sub. comprehension (dict_get base2bits) sub) subs
    = Inr (map (map (\<lambda>c. the (base2bits c))) subs)"
  using assms by (induction subs) (simp_all add: base_bits_valid)

text \<open>One row against one forbidden substring.\<close>

lemma window_test:
  assumes r: "length r = n" "list_all (\<lambda>x. x < 4) r"
    and sub: "length sub = k" "set sub \<subseteq> set bits2base"
    and k: "k \<le> n" "k \<le> 32"
  shows "list_all (\<lambda>v. v \<noteq> np_dot (map ucast (map (\<lambda>c. the (base2bits c)) sub))
                              (map (\<lambda>j. 4 ^ j) [0..<k]))
           (map (\<lambda>i. of_nat (window_value (take k (drop i r)))) [0..<Suc (n - k)])
    \<longleftrightarrow> \<not> sublist sub (map (\<lambda>b. bits2base ! unat b) r)"
proof -
  let ?cs = "map (\<lambda>c. the (base2bits c)) sub"
  from sub have cs: "length ?cs = k" "list_all (\<lambda>x. x < 4) ?cs"
    by (auto simp: list_all_iff code_of_base)
  have subval: "np_dot (map ucast ?cs) (map (\<lambda>j. 4 ^ j) [0..<k]) = of_nat (window_value ?cs)"
    using np_dot_powers [of ?cs] by (simp only: np_dot_commute [of "map ucast ?cs"] cs(1))
  have win: "((of_nat (window_value (take k (drop i r))) :: int64) = of_nat (window_value ?cs))
      \<longleftrightarrow> take k (drop i r) = ?cs" if "i < Suc (n - k)" for i
  proof (rule window_value_word_eq)
    from that r k sub(1) show "length (take k (drop i r)) = length ?cs"
      by simp
    from that r k show "length (take k (drop i r)) \<le> 32"
      by simp
    from r(2) show "list_all (\<lambda>x. x < 4) (take k (drop i r))"
      by (auto simp: list_all_iff dest: in_set_takeD in_set_dropD)
    show "list_all (\<lambda>x. x < 4) ?cs" by (rule cs(2))
  qed
  have "list_all (\<lambda>v. v \<noteq> np_dot (map ucast ?cs) (map (\<lambda>j. 4 ^ j) [0..<k]))
          (map (\<lambda>i. of_nat (window_value (take k (drop i r)))) [0..<Suc (n - k)])
      \<longleftrightarrow> (\<forall>i < Suc (n - k). take k (drop i r) \<noteq> ?cs)"
    unfolding subval by (auto simp: list_all_iff win simp del: upt_Suc)
  also have "\<dots> \<longleftrightarrow> \<not> sublist ?cs r"
    using sublist_iff_window [of ?cs r] r(1) k(1) sub(1) by auto
  also have "\<dots> \<longleftrightarrow> \<not> sublist sub (map (\<lambda>b. bits2base ! unat b) r)"
    by (simp add: sublist_codes_iff [OF sub(2) r(2)])
  finally show ?thesis .
qed

lemma init_from_seqarr:
  "DNASeqList_init E ((default_args g)\<lparr>arg_seqarr := Some arr\<rparr>)
    = Inr \<lparr>seqarr = arr, numseqs = int (shape0 arr), seqlen = int (ncols arr), rng = g,
           shift = shift_of (int (ncols arr))\<rparr>"
  by (simp add: DNASeqList_init_def default_args_def finish_init_def)

lemma mixed_lengths:
  assumes "list_ex (\<lambda>sub. length sub \<noteq> length (hd subs)) subs"
  shows "length (remdups (map length subs)) \<noteq> 1"
proof
  assume "length (remdups (map length subs)) = 1"
  then have "card (set (map length subs)) = 1"
    by (simp add: length_remdups_card_conv)
  then obtain l where l: "set (map length subs) = {l}"
    by (rule card_1_singletonE)
  from assms obtain s where s: "s \<in> set subs" "length s \<noteq> length (hd subs)"
    by (auto simp: list_ex_iff)
  then have "hd subs \<in> set subs"
    by (cases subs) auto
  with s(1) l have "length s = l" "length (hd subs) = l"
    by auto
  with s(2) show False by simp
qed

lemma same_lengths:
  assumes "subs \<noteq> []" "list_all (\<lambda>sub. length sub = k) subs"
  shows "length (remdups (map length subs)) = 1" and "length (hd subs) = k"
proof -
  from assms have "set (map length subs) = {k}"
    by (cases subs) (auto simp: list_all_iff)
  then show "length (remdups (map length subs)) = 1"
    by (simp add: length_remdups_card_conv)
  from assms show "length (hd subs) = k"
    by (cases subs) simp_all
qed

lemma filter_substring_run:
  assumes inv: "consistent self"
    and subs: "subs \<noteq> []" "list_all (\<lambda>sub. length sub = k \<and> set sub \<subseteq> set bits2base) subs"
    and k: "k \<le> ncols (seqarr self)" "k \<le> 32"
  shows "filter_substring E self subs
    = DNASeqList_init E
        ((default_args (default_rng E))
           \<lparr>arg_seqarr := Some \<lparr>ncols = ncols (seqarr self),
                                rows = filter (contains_none subs) (rows (seqarr self))\<rparr>\<rparr>)"
proof -
  let ?n = "ncols (seqarr self)" and ?rows = "rows (seqarr self)"
  let ?code = "\<lambda>c. the (base2bits c)"
  let ?subvals = "map (\<lambda>sub. np_dot (map ucast sub) (map (\<lambda>j. 4 ^ j) [0..<k]))
                    (map (map ?code) subs)"
  let ?T = "map (\<lambda>i. replicate i 0 @ map (\<lambda>j. 4 ^ j) [0..<k] @ replicate (?n - k - i) 0)
              [0..<Suc (?n - k)] :: int64 list list"
  let ?C = "\<lambda>r. map (\<lambda>i. of_nat (window_value (take k (drop i r)))) [0..<Suc (?n - k)] :: int64 list"
  let ?P = "\<lambda>r. list_all (\<lambda>sv. list_all (\<lambda>v. v \<noteq> sv) (?C r)) ?subvals"
  from inv have len: "seqlen self = int ?n" "numseqs self = int (length ?rows)"
    and shape: "\<forall>r \<in> set ?rows. length r = ?n"
    and codes: "\<forall>r \<in> set ?rows. list_all (\<lambda>x. x < 4) r"
    by (simp_all add: consistent_def well_shaped_def shape0_def list_all_iff)
  from subs(2) have lens: "list_all (\<lambda>sub. length sub = k) subs"
    and valid: "list_all (\<lambda>sub. set sub \<subseteq> set bits2base) subs"
    by (simp_all add: list_all_iff)
  note same = same_lengths [OF subs(1) lens]
  have conv: "map (\<lambda>r. map (\<lambda>t. np_dot t (map ucast r)) ?T) ?rows = map ?C ?rows"
    by (rule map_cong [OF refl]) (simp only: convolution_column [OF _ k(1)] shape)
  have keep: "filter ?P ?rows = filter (contains_none subs) ?rows"
  proof (rule filter_cong [OF refl])
    fix r assume r: "r \<in> set ?rows"
    with shape codes have lr: "length r = ?n" and cr: "list_all (\<lambda>x. x < 4) r"
      by simp_all
    have "?P r \<longleftrightarrow> (\<forall>sub \<in> set subs. \<not> sublist sub (map (\<lambda>b. bits2base ! unat b) r))"
      using subs(2) window_test [OF lr cr _ _ k]
      by (simp add: list_all_iff)
    also have "\<dots> \<longleftrightarrow> contains_none subs r"
      by (simp add: contains_none_def arr2seq_codes [OF cr] list_all_iff)
    finally show "?P r \<longleftrightarrow> contains_none subs r" .
  qed
  have loop: "pass_loop (map ?C ?rows) ?subvals (replicate (nat (numseqs self)) True)
      = Inr (map ?P ?rows)"
    using pass_loop_ones [of ?C ?rows ?subvals] by (simp only: len(2) nat_int)
  show ?thesis
    unfolding filter_substring_def
    by (simp only: same subints_valid [OF valid] Let_def create_toeplitz_rows [OF k] len(1)
        conv loop mask_rows_map keep sum.case if_False refl not_True_eq_False simp_thms)
       (simp add: len(2))
qed

text \<open>
  Claim C5, amended. If the forbidden substrings do not all have the length of the first
  one, \<open>filter_substring\<close> raises ValueError. For every \<open>DNASeqList\<close> that satisfies its
  invariants and every non-empty list of forbidden substrings over A, C, G, T of one
  length \<open>k\<close>, with \<open>k\<close> at most \<open>seqlen\<close> and at most 32, \<open>filter_substring\<close> returns a
  \<open>DNASeqList\<close> whose rows are exactly the rows that pass the naive check, in their
  order. (Beyond 32 symbols the powers of 4 no longer fit the C longs of the Toeplitz
  matrix.)
\<close>

theorem filter_substring_agrees_with_naive_check:
  "(list_ex (\<lambda>sub. length sub \<noteq> length (hd subs)) subs \<longrightarrow>
      filter_substring E self subs = Inl ValueError) \<and>
   (consistent self \<and> subs \<noteq> [] \<and>
    list_all (\<lambda>sub. length sub = k \<and> set sub \<subseteq> set bits2base) subs \<and>
    k \<le> ncols (seqarr self) \<and> k \<le> 32 \<longrightarrow>
      (\<exists>d. filter_substring E self subs = Inr d \<and> consistent d \<and>
           seqarr d = \<lparr>ncols = ncols (seqarr self),
                        rows = filter (contains_none subs) (rows (seqarr self))\<rparr>))"
proof (intro conjI impI)
  assume "list_ex (\<lambda>sub. length sub \<noteq> length (hd subs)) subs"
  from mixed_lengths [OF this] show "filter_substring E self subs = Inl ValueError"
    by (simp add: filter_substring_def)
next
  assume a: "consistent self \<and> subs \<noteq> [] \<and>
    list_all (\<lambda>sub. length sub = k \<and> set sub \<subseteq> set bits2base) subs \<and>
    k \<le> ncols (seqarr self) \<and> k \<le> 32"
  let ?arr = "\<lparr>ncols = ncols (seqarr self),
               rows = filter (contains_none subs) (rows (seqarr self))\<rparr>"
  let ?d = "\<lparr>seqarr = ?arr, numseqs = int (shape0 ?arr), seqlen = int (ncols ?arr),
             rng = default_rng E, shift = shift_of (int (ncols ?arr))\<rparr>"
  from a have h: "consistent self" "subs \<noteq> []"
    "list_all (\<lambda>sub. length sub = k \<and> set sub \<subseteq> set bits2base) subs"
    "k \<le> ncols (seqarr self)" "k \<le> 32"
    by simp_all
  have "filter_substring E self subs = Inr ?d"
    by (simp only: filter_substring_run [OF h] init_from_seqarr)
  moreover from a have "consistent ?d"
    by (auto simp: consistent_def well_shaped_def shape0_def list_all_iff)
  ultimately show "\<exists>d. filter_substring E self subs = Inr d \<and> consistent d \<and> seqarr d = ?arr"
    by simp
qed

theorem filter_substring_agrees_with_naive_check_witness:
  "filter_substring
     \<lparr>files = Map.empty, rng_shuffle = (\<lambda>g xs. (xs, g)), rng_choice = (\<lambda>g xs n m. ([], g)),
      py_int = (\<lambda>s. None), default_rng = ()\<rparr>
     \<lparr>seqarr = \<lparr>ncols = 3, rows = [[0, 1, 2], [2, 2, 1], [1, 3, 3]]\<rparr>, numseqs = 3,
      seqlen = 3, rng = (), shift = [4, 2, 0]\<rparr> [''GGG'', ''TT''] = Inl ValueError \<and>
   (\<exists>d. filter_substring
     \<lparr>files = Map.empty, rng_shuffle = (\<lambda>g xs. (xs, g)), rng_choice = (\<lambda>g xs n m. ([], g)),
      py_int = (\<lambda>s. None), default_rng = ()\<rparr>
     \<lparr>seqarr = \<lparr>ncols = 3, rows = [[0, 1, 2], [2, 2, 1], [1, 3, 3]]\<rparr>, numseqs = 3,
      seqlen = 3, rng = (), shift = [4, 2, 0]\<rparr> [''GG'', ''TT''] = Inr d \<and>
      seqarr d = \<lparr>ncols = 3, rows = [[0, 1, 2]]\<rparr>)"
proof -
  let ?E = "\<lparr>files = Map.empty, rng_shuffle = (\<lambda>g xs. (xs, g)),
      rng_choice = (\<lambda>g xs n m. ([], g)), py_int = (\<lambda>s. None), default_rng = ()\<rparr>"
  let ?self = "\<lparr>seqarr = \<lparr>ncols = 3, rows = [[0, 1, 2], [2, 2, 1], [1, 3, 3]]\<rparr>, numseqs = 3,
      seqlen = 3, rng = (), shift = [4, 2, 0]\<rparr>"
  have naive: "filter (contains_none [''GG'', ''TT'']) [[0, 1, 2], [2, 2, 1], [1, 3, 3]]
      = [[0, 1, 2]]"
    by (simp add: contains_none_def arr2seq_def list_get_def bits2base_def sublist_Cons_right)
  have inv: "consistent ?self"
    by (simp add: consistent_def well_shaped_def shape0_def)
  have mixed: "list_ex (\<lambda>sub. length sub \<noteq> length (hd [''GGG'', ''TT''])) [''GGG'', ''TT'']"
    by simp
  have same: "list_all (\<lambda>sub. length sub = 2 \<and> set sub \<subseteq> set bits2base) [''GG'', ''TT'']"
    by (simp add: bits2base_def)
  from filter_substring_agrees_with_naive_check [of "[''GGG'', ''TT'']" ?E ?self 0] mixed
  have "filter_substring ?E ?self [''GGG'', ''TT''] = Inl ValueError"
    by blast
  moreover
  have hyp: "consistent ?self \<and> [''GG'', ''TT''] \<noteq> [] \<and>
      list_all (\<lambda>sub. length sub = 2 \<and> set sub \<subseteq> set bits2base) [''GG'', ''TT''] \<and>
      2 \<le> ncols (seqarr ?self) \<and> (2 :: nat) \<le> 32"
    using inv same by simp
  have sel: "ncols (seqarr ?self) = 3" "rows (seqarr ?self) = [[0, 1, 2], [2, 2, 1], [1, 3, 3]]"
    by simp_all
  from filter_substring_agrees_with_naive_check
    [of "[''GG'', ''TT'']" ?E ?self 2, THEN conjunct2, rule_format, OF hyp]
  have "\<exists>d. filter_substring ?E ?self [''GG'', ''TT''] = Inr d \<and>
      seqarr d = \<lparr>ncols = 3, rows = [[0, 1, 2]]\<rparr>"
    unfolding sel naive by blast
  ultimately show ?thesis
    by blast
qed

text \<open>
  Claim C5 as stated fails for forbidden substrings of more than 32 symbols. The one row
  of 33 A does not contain the forbidden substring of 33 C, so the naive check keeps it;
  \<open>filter_substring\<close> raises OverflowError in \<open>create_toeplitz\<close>, where \<open>4 ** 32\<close> does not
  fit a C long.
\<close>

lemma comprehension_replicate:
  "f x = Inr y \<Longrightarrow> comprehension f (replicate n x) = Inr (replicate n y)"
  by (induction n) simp_all

lemma create_toeplitz_overflow: "create_toeplitz 33 33 = Inl OverflowError"
proof -
  have "(4 :: int) ^ 32 \<in> set (map (\<lambda>k. 4 ^ k) [0..<33])"
    unfolding set_map by (rule image_eqI [of _ _ 32]) simp_all
  moreover have "(2 :: int) ^ 63 - 1 < 4 ^ 32"
    by simp
  ultimately have "list_ex (\<lambda>p. 2 ^ 63 - 1 < p) (map (\<lambda>k. (4 :: int) ^ k) [0..<33])"
    unfolding list_ex_iff by (rule bexI [rotated])
  then show ?thesis
    by (simp add: create_toeplitz_def Let_def del: upt_Suc)
qed

theorem filter_substring_overflow:
  "consistent
     \<lparr>seqarr = \<lparr>ncols = 33, rows = [replicate 33 0]\<rparr>, numseqs = 1, seqlen = 33, rng = (),
      shift = shift_of 33\<rparr> \<and>
   contains_none [replicate 33 CHR ''C''] (replicate 33 0) \<and>
   filter_substring
     \<lparr>files = Map.empty, rng_shuffle = (\<lambda>g xs. (xs, g)), rng_choice = (\<lambda>g xs n m. ([], g)),
      py_int = (\<lambda>s. None), default_rng = ()\<rparr>
     \<lparr>seqarr = \<lparr>ncols = 33, rows = [replicate 33 0]\<rparr>, numseqs = 1, seqlen = 33, rng = (),
      shift = shift_of 33\<rparr> [replicate 33 CHR ''C''] = Inl OverflowError"
proof (intro conjI)
  show "consistent
     \<lparr>seqarr = \<lparr>ncols = 33, rows = [replicate 33 0]\<rparr>, numseqs = 1, seqlen = 33, rng = (),
      shift = shift_of 33\<rparr>"
    by (simp add: consistent_def well_shaped_def shape0_def list_all_iff)
next
  have "list_all (\<lambda>x. x < 4) (replicate 33 (0 :: ubyte))"
    by (simp add: list_all_iff)
  then have "arr2seq (replicate 33 0) = Inr (replicate 33 CHR ''A'')"
    by (simp add: arr2seq_codes bits2base_def)
  moreover have "\<not> sublist (replicate 33 CHR ''C'') (replicate 33 CHR ''A'')"
    by (auto dest: set_mono_sublist)
  ultimately show "contains_none [replicate 33 CHR ''C''] (replicate 33 0)"
    by (simp add: contains_none_def)
next
  have "dict_get base2bits CHR ''C'' = Inr 1"
    by (simp add: dict_get_def base2bits_def)
  then have "comprehension (dict_get base2bits) (replicate 33 CHR ''C'') = Inr (replicate 33 1)"
    by (rule comprehension_replicate)
  then show "filter_substring
     \<lparr>files = Map.empty, rng_shuffle = (\<lambda>g xs. (xs, g)), rng_choice = (\<lambda>g xs n m. ([], g)),
      py_int = (\<lambda>s. None), default_rng = ()\<rparr>
     \<lparr>seqarr = \<lparr>ncols = 33, rows = [replicate 33 0]\<rparr>, numseqs = 1, seqlen = 33, rng = (),
      shift = shift_of 33\<rparr> [replicate 33 CHR ''C''] = Inl OverflowError"
    by (simp add: filter_substring_def create_toeplitz_overflow del: upt_Suc)
qed

subsection \<open>The substring matchers\<close>




lemma take_true_all_False [simp]: "take_true xs (False # m) = take_true (tl xs) m"
  by (cases xs) simp_all



lemma length_table_row [simp]: "length (table_row a1 a2 i) = Suc (length a2)"
proof (induction i)
  case 0
  show ?case by simp
next
  case (Suc i)
  then show ?case by (simp add: dp_row_def)
qed
















lemma rows_indexed: "xs = map (\<lambda>k. xs ! k) [0..<length xs]"
  by (simp add: map_nth)














text \<open>Under the strict rule the boolean index of the first pass of either loop is
  refused, whenever the sequences on both sides have a symbol.\<close>

lemma for_each_first_raises:
  "body x s = Inl e \<Longrightarrow> for_each (x # xs) body s = Inl e"
  by simp

lemma longest_common_substring_strict:
  assumes "a1 \<noteq> []" "a2 \<noteq> []"
  shows "longest_common_substring Strict a1 a2 True = Inl IndexError"
proof -
  from assms(1) have upt: "[0..<length a1] = 0 # [1..<length a1]"
    by (simp add: upt_conv_Cons)
  from assms(2) have "lcs_vectorized_step Strict a1 a2 0
      (replicate (length a1 + 1) (replicate (length a2 + 1) 0)) = Inl IndexError"
    by (simp add: lcs_vectorized_step_def np_take_mask_def mask_shape_ok_def)
  then show ?thesis
    unfolding longest_common_substring_def Let_def upt
    by (simp only: for_each_first_raises sum.case if_True)
qed

lemma longest_common_substrings_pairs_strict:
  assumes "shape0 a1s = shape0 a2s" "0 < ncols a1s" "0 < ncols a2s"
  shows "longest_common_substrings_pairs Strict a1s a2s = Inl IndexError"
proof -
  from assms(2) have upt: "[0..<ncols a1s] = 0 # [1..<ncols a1s]"
    by (simp add: upt_conv_Cons)
  from assms(3) have "pairs_step Strict a1s a2s 0
      (replicate (ncols a1s + 1) (replicate (shape0 a1s) (replicate (ncols a2s + 1) 0)))
      = Inl IndexError"
    by (simp add: pairs_step_def np_take_mask2_def mask_shape_ok_def)
  then show ?thesis
    unfolding longest_common_substrings_pairs_def Let_def upt
    using assms(1) by (simp only: for_each_first_raises sum.case if_False simp_thms)
qed

subsection \<open>The energy-weighted matcher\<close>





lemma count_true_Cons [simp]:
  "count_true (b # m) = (if b then Suc (count_true m) else count_true m)"
  by (simp add: count_true_def)

lemma count_true_append [simp]: "count_true (m @ m') = count_true m + count_true m'"
  by (simp add: count_true_def)

lemma count_true_Nil [simp]: "count_true [] = 0"
  by (simp add: count_true_def)






text \<open>The two boolean indices of the energies: both are the positions where the current
  and the previous base match, once with \<open>False\<close> at the end and once in front.\<close>

lemma both_match_rows:
  assumes "length m = w" "length p = Suc w"
  shows "map2 (\<and>) (m @ [False]) p = map2 (\<and>) m (butlast p) @ [False]"
    and "map2 (\<and>) (False # m) (butlast (False # p)) = False # map2 (\<and>) m (butlast p)"
proof -
  from assms(2) obtain p' z where p: "p = p' @ [z]" "length p' = w"
    by (cases p rule: rev_cases) simp_all
  with assms(1) show "map2 (\<and>) (m @ [False]) p = map2 (\<and>) m (butlast p) @ [False]"
    by simp
  from p show "map2 (\<and>) (False # m) (butlast (False # p)) = False # map2 (\<and>) m (butlast p)"
    by simp
qed

lemma both_match_idxs:
  assumes "length M = length P" "\<forall>m \<in> set M. length m = w" "\<forall>p \<in> set P. length p = Suc w"
  shows "map2 (map2 (\<and>)) (map (\<lambda>m. m @ [False]) M) P
      = map (\<lambda>q. q @ [False]) (map2 (\<lambda>m p. map2 (\<and>) m (butlast p)) M P)"
    and "map2 (map2 (\<and>)) (map (\<lambda>m. False # m) M) (map (\<lambda>m. butlast (False # m)) P)
      = map (\<lambda>q. False # q) (map2 (\<lambda>m p. map2 (\<and>) m (butlast p)) M P)"
  using assms
proof (induction M P rule: list_induct2)
  case Nil
  {
    case 1
    show ?case by simp
  next
    case 2
    show ?case by simp
  }
next
  case (Cons m M p P)
  {
    case 1
    then have "length m = w" "length p = Suc w" by simp_all
    from both_match_rows(1) [OF this] Cons.IH(1) 1 show ?case
      by simp
  next
    case 2
    then have "length m = w" "length p = Suc w" by simp_all
    from both_match_rows(2) [OF this] Cons.IH(2) 2 show ?case
      by (simp del: butlast.simps)
  }
qed


lemma count_true_False_at_end:
  "count_true (concat (map (\<lambda>q. q @ [False]) Q)) = count_true (concat Q)"
  by (induction Q) simp_all

















text \<open>Under the strict rule the boolean index of the first pass is refused, as in the
  matchers of counters.\<close>

lemma strongest_common_substrings_all_pairs_strict:
  assumes "shape0 a1s = shape0 a2s" "0 < ncols a1s" "0 < ncols a2s"
  shows "strongest_common_substrings_all_pairs Strict a1s a2s T = Inl IndexError"
proof -
  from assms(2) have upt: "[0..<ncols a1s] = 0 # [1..<ncols a1s]"
    by (simp add: upt_conv_Cons)
  from assms(3) have "strongest_step Strict (calculate_loop_energies T False) a1s a2s 0
      (replicate (ncols a1s + 1) (replicate (shape0 a1s) (replicate (ncols a2s + 1) 0)),
       replicate (ncols a1s + 1) (replicate (shape0 a1s) (replicate (ncols a2s + 1) 0)), None)
      = Inl IndexError"
    by (simp add: strongest_step_def np_take_mask2_def mask_shape_ok_def)
  then show ?thesis
    unfolding strongest_common_substrings_all_pairs_def strongest_return_energies_and_counter_def
      Let_def upt
    using assms(1) by (simp only: for_each_first_raises sum.case if_False simp_thms)
qed

end
